theory Spec2Isabelle
  imports Main "HOL-Library.Sublist"
begin

section \<open>Go values used by the SQL facade (package db)\<close>

text \<open>
  A Go \<^verbatim>\<open>string\<close> is a byte string, so it is a \<^typ>\<open>string\<close> here. A Go \<^verbatim>\<open>error\<close>
  value is represented by the text its \<^verbatim>\<open>Error()\<close> method returns. Go's \<^verbatim>\<open>int\<close> is
  64 bits wide: arithmetic on it is written on \<^typ>\<open>int\<close> with the wrap-around explicit.
\<close>

datatype error = GoError string

fun err_Error :: "error \<Rightarrow> string" where
  "err_Error (GoError msg) = msg"

datatype panic = IndexOutOfRange

definition wrap64 :: "int \<Rightarrow> int" where
  "wrap64 x = (x + 2 ^ 63) mod 2 ^ 64 - 2 ^ 63"

definition MaxInt64 :: int where
  "MaxInt64 = 2 ^ 63 - 1"

definition MinInt64 :: int where
  "MinInt64 = - (2 ^ 63)"

text \<open>
  \<^verbatim>\<open>time.Time\<close>: the fields the facade reads (\<^verbatim>\<open>Clock()\<close>, \<^verbatim>\<open>Nanosecond()\<close>); the date
  is kept for the formatting function of the standard library.
\<close>

datatype Time = Time (Year: int) (Month: nat) (Day: nat)
  (Hour: nat) (Minute: nat) (Second: nat) (Nanosecond: nat)

text \<open>
  The dynamic values (\<^verbatim>\<open>any\<close>) that travel through the facade: what a driver hands to
  \<^verbatim>\<open>Scan\<close>, and what ends up in a result cell.
  \<^item> \<open>VInt\<close> is a value of one of the ten built-in integer types of the type switch of
    \<^verbatim>\<open>NullAny.Scan\<close>, \<open>VFloat\<close> one of \<^verbatim>\<open>float32\<close>, \<^verbatim>\<open>float64\<close> (its bit pattern:
    floats are only carried, never computed with);
  \<^item> \<open>VBytes\<close> is a \<^verbatim>\<open>[]byte\<close>;
  \<^item> \<open>VConv s\<close> is a value of any other type that \<^verbatim>\<open>reflect\<close> can convert to
    \<^verbatim>\<open>string\<close>, \<open>s\<close> being the result of that conversion;
  \<^item> \<open>VOpaque\<close> is a value of any type that can be converted neither to
    \<^verbatim>\<open>time.Time\<close> nor to \<^verbatim>\<open>string\<close>;
  \<^item> \<open>VError\<close> is an \<^verbatim>\<open>error\<close> put into a cell by \<^verbatim>\<open>Exec\<close>.
\<close>

datatype Value =
    VNil
  | VBool bool
  | VInt int
  | VFloat nat
  | VString string
  | VBytes string
  | VTime Time
  | VConv string
  | VOpaque nat
  | VError error

subsection \<open>Functions of the Go standard library, taken as parameters\<close>

text \<open>
  The facade calls into \<^verbatim>\<open>database/sql\<close>, \<^verbatim>\<open>fmt\<close> and \<^verbatim>\<open>time\<close>. These functions are
  not code of the repository; they are parameters of the model:
  \<^item> the \<^verbatim>\<open>Scan\<close> methods of \<^verbatim>\<open>sql.NullBool\<close>, \<^verbatim>\<open>sql.NullInt64\<close>,
    \<^verbatim>\<open>sql.NullFloat64\<close>, \<^verbatim>\<open>sql.NullString\<close> on a non-nil value: the field they
    leave behind and the error they return;
  \<^item> \<^verbatim>\<open>fmt.Sprintf("%v", x)\<close>, \<^verbatim>\<open>Time.Format(layout)\<close>, \<^verbatim>\<open>Duration.String()\<close>;
  \<^item> the two errors \<^verbatim>\<open>sql.Rows.Scan\<close> builds itself: for a wrong number of
    destinations, and around the error of a destination's \<^verbatim>\<open>Scan\<close>.
\<close>

record Std =
  NullBool_Scan :: "Value \<Rightarrow> bool \<times> error option"
  NullInt64_Scan :: "Value \<Rightarrow> int \<times> error option"
  NullFloat64_Scan :: "Value \<Rightarrow> nat \<times> error option"
  NullString_Scan :: "Value \<Rightarrow> string \<times> error option"
  Sprintf_v :: "Value \<Rightarrow> string"
  Time_Format :: "string \<Rightarrow> Time \<Rightarrow> string"
  Duration_String :: "int \<Rightarrow> string"
  ArgCount_Errorf :: "nat \<Rightarrow> nat \<Rightarrow> error"
  Scan_Errorf :: "nat \<Rightarrow> string \<Rightarrow> error \<Rightarrow> error"

section \<open>JsonRowsScanner\<close>

type_synonym row = "string \<rightharpoonup> Value"

record JsonRowsScanner =
  start :: int
  Header :: "string list"
  Limit :: int
  Offset :: int
  jRows :: "row list"

definition NewJsonRowsScanner :: "int \<Rightarrow> int \<Rightarrow> JsonRowsScanner" where
  "NewJsonRowsScanner offset limit =
     \<lparr>start = 0, Header = [], Limit = limit, Offset = offset, jRows = []\<rparr>"

definition StartRows :: "JsonRowsScanner \<Rightarrow> string list \<Rightarrow> JsonRowsScanner" where
  "StartRows j header = j\<lparr>Header := header\<rparr>"

text \<open>
  The loop \<^verbatim>\<open>for i, h := range j.Header { row[h] = columns[i] }\<close>: the index runs along
  both slices, and \<^verbatim>\<open>columns[i]\<close> panics when \<^verbatim>\<open>columns\<close> is the shorter one.
\<close>

fun fillRow :: "string list \<Rightarrow> Value list \<Rightarrow> row \<Rightarrow> panic + row" where
  "fillRow [] columns r = Inr r"
| "fillRow (h # hs) [] r = Inl IndexOutOfRange"
| "fillRow (h # hs) (c # cs) r = fillRow hs cs (r(h \<mapsto> c))"

definition AddRow :: "JsonRowsScanner \<Rightarrow> int \<Rightarrow> Value list \<Rightarrow> panic + (bool \<times> JsonRowsScanner)" where
  "AddRow j rowIndex columns =
     (if Offset j > 0 \<and> rowIndex < Offset j then Inr (True, j)
      else if wrap64 (rowIndex + 1) > wrap64 (Limit j + Offset j) then Inr (False, j)
      else (case fillRow (Header j) columns Map.empty of
              Inl p \<Rightarrow> Inl p
            | Inr r \<Rightarrow>
                Inr (Limit j \<le> 0 \<or> wrap64 (rowIndex + 1) \<le> wrap64 (Limit j + Offset j),
                     j\<lparr>jRows := jRows j @ [r]\<rparr>)))"

definition StartExecute :: "int \<Rightarrow> JsonRowsScanner \<Rightarrow> JsonRowsScanner" where
  \<comment> \<open>\<open>now\<close> is the reading of \<^verbatim>\<open>time.Now()\<close>, in nanoseconds\<close>
  "StartExecute now j = j\<lparr>start := now\<rparr>"

section \<open>Column kinds\<close>

type_synonym ValueType = int

definition ValueTypeBool :: ValueType where "ValueTypeBool = 1"
definition ValueTypeInt64 :: ValueType where "ValueTypeInt64 = 2"
definition ValueTypeFloat64 :: ValueType where "ValueTypeFloat64 = 3"
definition ValueTypeString :: ValueType where "ValueTypeString = 4"
definition ValueTypeBytes :: ValueType where "ValueTypeBytes = 5"
definition ValueTypeOther :: ValueType where "ValueTypeOther = 6"

subsection \<open>\<^verbatim>\<open>strings.Contains\<close>, \<^verbatim>\<open>strings.ToUpper\<close>, \<^verbatim>\<open>strings.ToLower\<close>\<close>

fun strings_Contains :: "string \<Rightarrow> string \<Rightarrow> bool" where
  "strings_Contains [] substr = (substr = [])"
| "strings_Contains (c # cs) substr = (prefix substr (c # cs) \<or> strings_Contains cs substr)"

text \<open>The variadic \<^verbatim>\<open>Contains(s, ss...)\<close> of the facade: the first hit returns.\<close>

fun Contains :: "string \<Rightarrow> string list \<Rightarrow> bool" where
  "Contains s [] = False"
| "Contains s (of' # ss) = (if strings_Contains s of' then True else Contains s ss)"

text \<open>
  Case mapping works on runes. The ASCII letters are mapped; of the runes outside ASCII,
  exactly two have an ASCII letter as upper case (U+0131 and U+017F, in UTF-8 the bytes
  C4 B1 and C5 BF) and exactly two have one as lower case (U+0130 and U+212A, the bytes
  C4 B0 and E2 84 AA). Every other rune outside ASCII is mapped by Go to a rune outside
  ASCII again; the model leaves its bytes as they are, since the facade only searches
  the result for ASCII words. The bytes C4, C5 and E2 are never continuation bytes, so
  they always start a rune.
\<close>

definition asciiUpper :: "char \<Rightarrow> char" where
  "asciiUpper c = (let n = (of_char c :: nat) in if 97 \<le> n \<and> n \<le> 122 then char_of (n - 32) else c)"

definition asciiLower :: "char \<Rightarrow> char" where
  "asciiLower c = (let n = (of_char c :: nat) in if 65 \<le> n \<and> n \<le> 90 then char_of (n + 32) else c)"

fun ToUpper :: "string \<Rightarrow> string" where
  "ToUpper [] = []"
| "ToUpper [c] = [asciiUpper c]"
| "ToUpper (c # d # cs) =
     (if c = CHR 0xC4 \<and> d = CHR 0xB1 then CHR ''I'' # ToUpper cs
      else if c = CHR 0xC5 \<and> d = CHR 0xBF then CHR ''S'' # ToUpper cs
      else asciiUpper c # ToUpper (d # cs))"

fun ToLower :: "string \<Rightarrow> string" where
  "ToLower [] = []"
| "ToLower (c # cs) =
     (if c = CHR 0xC4 \<and> take 1 cs = [CHR 0xB0] then CHR ''i'' # ToLower (drop 1 cs)
      else if c = CHR 0xE2 \<and> take 2 cs = [CHR 0x84, CHR 0xAA] then CHR ''k'' # ToLower (drop 2 cs)
      else asciiLower c # ToLower cs)"

subsection \<open>The kind of a column, from its database type name\<close>

text \<open>The \<^verbatim>\<open>switch\<close> inside \<^verbatim>\<open>NewRowScanner\<close>, cases in the order of the source.\<close>

definition columnValueType :: "string \<Rightarrow> ValueType" where
  "columnValueType databaseTypeName =
     (let typeName = ToUpper databaseTypeName in
      if Contains typeName [''CHAR'', ''TEXT'', ''NVARCHAR''] then ValueTypeString
      else if Contains typeName [''BOOL''] then ValueTypeBool
      else if Contains typeName [''BOOL'', ''INT'', ''NUMBER''] then ValueTypeInt64
      else if Contains typeName [''DECIMAL''] then ValueTypeFloat64
      else if Contains typeName [''LOB''] then ValueTypeBytes
      else ValueTypeOther)"

section \<open>NullAny: scanning one value\<close>

record NullAny =
  Value :: Value
  ValueType :: ValueType
  Valid :: bool

definition newNullAny :: "ValueType \<Rightarrow> NullAny" where
  \<comment> \<open>\<^verbatim>\<open>&NullAny{ValueType: t}\<close>\<close>
  "newNullAny t = \<lparr>Value = VNil, ValueType = t, Valid = False\<rparr>"

text \<open>
  \<^verbatim>\<open>convertAlias\<close> walks \<^verbatim>\<open>aliasConverters\<close>: first \<^verbatim>\<open>time.Time\<close>, then
  \<^verbatim>\<open>string\<close>. It is only called from the \<^verbatim>\<open>default\<close> case of the type switch of
  \<^verbatim>\<open>Scan\<close>, so the built-in integers, floats, strings and byte slices never reach it.
\<close>

definition timeConverter :: "Std \<Rightarrow> Time \<Rightarrow> NullAny \<Rightarrow> NullAny" where
  "timeConverter std t ns =
     (let v = (if Hour t = 0 \<and> Minute t = 0 \<and> Second t = 0 \<and> Nanosecond t = 0
                 then Time_Format std ''2006-01-02'' t
               else if Nanosecond t = 0
                 then Time_Format std ''2006-01-02 15:04:05'' t
               else Time_Format std ''2006-01-02 15:04:05.999999999'' t)
      in ns\<lparr>Value := VString v, ValueType := ValueTypeString\<rparr>)"

fun convertAlias :: "Std \<Rightarrow> NullAny \<Rightarrow> Value \<Rightarrow> NullAny" where
  "convertAlias std ns (VTime t) = timeConverter std t ns"
| "convertAlias std ns (VConv s) = ns\<lparr>ValueType := ValueTypeString, Value := VString s\<rparr>"
| "convertAlias std ns v = ns\<lparr>Value := v\<rparr>"

text \<open>The inner type switch of \<^verbatim>\<open>Scan\<close> (the \<^verbatim>\<open>default\<close> case of the outer one).\<close>

fun scanDefault :: "Std \<Rightarrow> NullAny \<Rightarrow> Value \<Rightarrow> NullAny" where
  "scanDefault std ns (VInt n) = ns\<lparr>ValueType := ValueTypeInt64, Value := VInt n\<rparr>"
| "scanDefault std ns (VFloat f) = ns\<lparr>ValueType := ValueTypeFloat64, Value := VFloat f\<rparr>"
| "scanDefault std ns (VString s) = ns\<lparr>ValueType := ValueTypeString, Value := VString s\<rparr>"
| "scanDefault std ns (VBytes nv) =
     (if length nv < 1024 then
        (if ValueType ns = ValueTypeOther
         then ns\<lparr>ValueType := ValueTypeString, Value := VString nv\<rparr>
         else ns)
      else ns\<lparr>ValueType := ValueTypeBytes, Value := VBytes nv\<rparr>)"
| "scanDefault std ns v = convertAlias std ns v"

fun isBytes :: "Value \<Rightarrow> bool" where
  "isBytes (VBytes b) = True"
| "isBytes v = False"

definition NullAny_Scan :: "Std \<Rightarrow> NullAny \<Rightarrow> Value \<Rightarrow> NullAny \<times> error option" where
  "NullAny_Scan std ns0 v =
     (let ns = ns0\<lparr>Valid := (v \<noteq> VNil)\<rparr> in
      if \<not> Valid ns then (ns, None)
      else if ValueType ns = ValueTypeBool then
        (let (b, err) = NullBool_Scan std v in (ns\<lparr>Value := VBool b\<rparr>, err))
      else if ValueType ns = ValueTypeInt64 then
        (let (i, err) = NullInt64_Scan std v in (ns\<lparr>Value := VInt i\<rparr>, err))
      else if ValueType ns = ValueTypeFloat64 then
        (let (f, err) = NullFloat64_Scan std v in (ns\<lparr>Value := VFloat f\<rparr>, err))
      else if ValueType ns = ValueTypeString then
        (let (s, err) = NullString_Scan std v in (ns\<lparr>Value := VString s\<rparr>, err))
      else if ValueType ns = ValueTypeBytes \<and> isBytes v then (ns\<lparr>Value := v\<rparr>, None)
      else (scanDefault std ns v, None))"

subsection \<open>Quote and getColValue\<close>

definition quote :: char where "quote = CHR 0x27"
definition escape :: char where "escape = CHR 0x5C"

fun quoteRunes :: "string \<Rightarrow> string" where
  "quoteRunes [] = []"
| "quoteRunes (r # s) = (if r = quote then escape # r # quoteRunes s else r # quoteRunes s)"

definition Quote :: "string \<Rightarrow> string" where
  "Quote s = quote # quoteRunes s @ [quote]"

definition getColValue :: "Std \<Rightarrow> NullAny \<Rightarrow> Value" where
  "getColValue std n =
     (if \<not> Valid n then VNil
      else if ValueType n = ValueTypeInt64 \<or> ValueType n = ValueTypeFloat64 then Value n
      else if ValueType n = ValueTypeBytes \<and> isBytes (Value n) then
        (case Value n of VBytes data \<Rightarrow> VString data | v \<Rightarrow> v)
      else VString (Quote (Sprintf_v std (Value n))))"

section \<open>sql.Rows and RowScanner\<close>

text \<open>
  A \<^verbatim>\<open>*sql.Rows\<close> cursor, by what it will answer: the columns (name and database type
  name; \<^verbatim>\<open>ColumnTypes()\<close> is built from the same column list as \<^verbatim>\<open>Columns()\<close>), the
  error of \<^verbatim>\<open>Columns()\<close> and of \<^verbatim>\<open>ColumnTypes()\<close> if they fail, the rows that
  \<^verbatim>\<open>Next()\<close> delivers (the driver's values), and the error \<^verbatim>\<open>Err()\<close> reports once
  \<^verbatim>\<open>Next()\<close> has returned false.
\<close>

record SqlRows =
  cols :: "(string \<times> string) list"
  colsErr :: "error option"
  colTypesErr :: "error option"
  fetched :: "Value list list"
  lastErr :: "error option"

definition Columns :: "SqlRows \<Rightarrow> error + string list" where
  "Columns rows = (case colsErr rows of Some e \<Rightarrow> Inl e | None \<Rightarrow> Inr (map fst (cols rows)))"

definition ColumnTypes :: "SqlRows \<Rightarrow> error + string list" where
  \<comment> \<open>each column type by its \<^verbatim>\<open>DatabaseTypeName()\<close>\<close>
  "ColumnTypes rows = (case colTypesErr rows of Some e \<Rightarrow> Inl e | None \<Rightarrow> Inr (map snd (cols rows)))"

record RowScanner =
  Types :: "ValueType list"
  RColumns :: "string list"

definition NewRowScanner :: "SqlRows \<Rightarrow> error + RowScanner" where
  "NewRowScanner rows =
     (case Columns rows of
        Inl err \<Rightarrow> Inl err
      | Inr columns \<Rightarrow>
          (case ColumnTypes rows of
             Inl err \<Rightarrow> Inl err
           | Inr columnTypes \<Rightarrow>
               Inr \<lparr>Types = map columnValueType columnTypes, RColumns = columns\<rparr>))"

text \<open>
  \<^verbatim>\<open>sql.Rows.Scan(dest...)\<close> with every destination a \<^verbatim>\<open>*NullAny\<close>: the count of
  destinations must be the count of values in the row; then each destination scans its
  value, and the first error stops the scan, wrapped with the column's index and name.
\<close>

fun scanDests :: "Std \<Rightarrow> string list \<Rightarrow> nat \<Rightarrow> NullAny list \<Rightarrow> Value list \<Rightarrow> error + NullAny list" where
  "scanDests std names i (d # ds) (v # vs) =
     (case NullAny_Scan std d v of
        (d', Some err) \<Rightarrow> Inl (Scan_Errorf std i (if i < length names then names ! i else []) err)
      | (d', None) \<Rightarrow>
          (case scanDests std names (Suc i) ds vs of
             Inl err \<Rightarrow> Inl err
           | Inr ds' \<Rightarrow> Inr (d' # ds')))"
| "scanDests std names i ds vs = Inr []"

definition Rows_Scan :: "Std \<Rightarrow> string list \<Rightarrow> NullAny list \<Rightarrow> Value list \<Rightarrow> error + NullAny list" where
  "Rows_Scan std names dest vals =
     (if length dest \<noteq> length vals then Inl (ArgCount_Errorf std (length vals) (length dest))
      else scanDests std names 0 dest vals)"

definition RowScanner_Scan :: "Std \<Rightarrow> RowScanner \<Rightarrow> Value list \<Rightarrow> error + Value list" where
  "RowScanner_Scan std s vals =
     (let values = map newNullAny (Types s) in
      case Rows_Scan std (RColumns s) values vals of
        Inl err \<Rightarrow> Inl err
      | Inr values' \<Rightarrow> Inr (map (getColValue std) values'))"

text \<open>
  The loop of \<^verbatim>\<open>JsonRowsScanner.Scan\<close>, over the rows \<^verbatim>\<open>Next()\<close> still delivers. It
  ends with \<^verbatim>\<open>rows.Err()\<close>: the cursor's error when \<^verbatim>\<open>Next()\<close> returned false, and
  no error when \<^verbatim>\<open>AddRow\<close> stopped the loop before the cursor was exhausted.
\<close>

fun scanLoop :: "Std \<Rightarrow> RowScanner \<Rightarrow> error option \<Rightarrow> JsonRowsScanner \<Rightarrow> int \<Rightarrow> Value list list
    \<Rightarrow> panic + (error option \<times> JsonRowsScanner)" where
  "scanLoop std scan endErr j rowNum [] = Inr (endErr, j)"
| "scanLoop std scan endErr j rowNum (vals # rest) =
     (case RowScanner_Scan std scan vals of
        Inl err \<Rightarrow> Inr (Some err, j)
      | Inr r \<Rightarrow>
          (case AddRow j rowNum r of
             Inl p \<Rightarrow> Inl p
           | Inr (continue, j') \<Rightarrow>
               if \<not> continue then Inr (None, j')
               else scanLoop std scan endErr j' (wrap64 (rowNum + 1)) rest))"

definition JsonRowsScanner_Scan :: "Std \<Rightarrow> JsonRowsScanner \<Rightarrow> SqlRows
    \<Rightarrow> panic + (error option \<times> JsonRowsScanner)" where
  "JsonRowsScanner_Scan std j rows =
     (case NewRowScanner rows of
        Inl err \<Rightarrow> Inr (Some err, j)
      | Inr scan \<Rightarrow>
          (case Columns rows of
             Inl err \<Rightarrow> Inr (Some err, j)
           | Inr columns \<Rightarrow>
               scanLoop std scan (lastErr rows) (StartRows j columns) 0 (fetched rows)))"

section \<open>The database handle and the process environment\<close>

text \<open>
  \<^verbatim>\<open>sql.Result\<close>: what \<^verbatim>\<open>LastInsertId()\<close> and \<^verbatim>\<open>RowsAffected()\<close> return.
\<close>

record SqlResult =
  LastInsertId :: "int \<times> error option"
  RowsAffected :: "int \<times> error option"

text \<open>
  The interface \<^verbatim>\<open>DB\<close> (\<^verbatim>\<open>QueryContext\<close>, \<^verbatim>\<open>ExecContext\<close>) together with the clock
  and the scheduler, as functions on a state \<open>'s\<close> of the outside world that the model
  does not look into: any database behaviour is some choice of these functions. The
  \<^verbatim>\<open>context.Context\<close> arguments (deadlines, cancellation) are part of that behaviour
  and are not represented.
\<close>

record 's Env =
  QueryContext :: "'s \<Rightarrow> string \<Rightarrow> (error + SqlRows) \<times> 's"
  ExecContext :: "'s \<Rightarrow> string \<Rightarrow> (error + SqlResult) \<times> 's"
  RowsClose :: "'s \<Rightarrow> 's"
  Now :: "'s \<Rightarrow> int"
  Sleep :: "int \<Rightarrow> 's \<Rightarrow> 's"

text \<open>The calls made to the outside world are logged, in order.\<close>

datatype Event = EvQuery string | EvExec string | EvClose | EvSleep int

record 's World =
  outside :: 's
  trace :: "Event list"

definition doQuery :: "'s Env \<Rightarrow> 's World \<Rightarrow> string \<Rightarrow> (error + SqlRows) \<times> 's World" where
  "doQuery E w q =
     (let (r, s') = QueryContext E (outside w) q
      in (r, w\<lparr>outside := s', trace := trace w @ [EvQuery q]\<rparr>))"

definition doExec :: "'s Env \<Rightarrow> 's World \<Rightarrow> string \<Rightarrow> (error + SqlResult) \<times> 's World" where
  "doExec E w q =
     (let (r, s') = ExecContext E (outside w) q
      in (r, w\<lparr>outside := s', trace := trace w @ [EvExec q]\<rparr>))"

definition doClose :: "'s Env \<Rightarrow> 's World \<Rightarrow> 's World" where
  "doClose E w = w\<lparr>outside := RowsClose E (outside w), trace := trace w @ [EvClose]\<rparr>"

definition doSleep :: "'s Env \<Rightarrow> int \<Rightarrow> 's World \<Rightarrow> 's World" where
  "doSleep E d w = w\<lparr>outside := Sleep E d (outside w), trace := trace w @ [EvSleep d]\<rparr>"

definition Millisecond :: int where "Millisecond = 1000000"
definition Second' :: int where "Second' = 1000 * Millisecond"

section \<open>PingDB\<close>

text \<open>The loop \<^verbatim>\<open>for i := 0; i < 3; i++\<close> of \<^verbatim>\<open>PingDB\<close>.\<close>

function pingLoop :: "'s Env \<Rightarrow> int \<Rightarrow> 's World \<Rightarrow> 's World" where
  "pingLoop E i w =
     (if i < 3 then
        (case doQuery E w ''select 1'' of
           (Inl err, w') \<Rightarrow> pingLoop E (i + 1) (doSleep E (100 * Millisecond) w')
         | (Inr rows, w') \<Rightarrow> doClose E w')
      else w)"
  by pat_completeness auto
termination
  by (relation "measure (\<lambda>(E, i, w). nat (3 - i))") auto

definition PingDB :: "'s Env \<Rightarrow> 's World \<Rightarrow> int \<Rightarrow> error option \<times> 's World" where
  \<comment> \<open>the timeout only builds the context of the probes\<close>
  "PingDB E w timeout = (None, pingLoop E 0 w)"

section \<open>Query, Exec, RunSQL\<close>

record QueryResult =
  Error :: string
  Cost :: string
  Rows :: "row list"

definition time_Since :: "int \<Rightarrow> int \<Rightarrow> int" where
  \<comment> \<open>\<^verbatim>\<open>time.Since(start)\<close> at the clock reading \<open>now\<close>; \<^verbatim>\<open>Time.Sub\<close> saturates\<close>
  "time_Since now start' = max MinInt64 (min MaxInt64 (now - start'))"

definition Complete :: "Std \<Rightarrow> int \<Rightarrow> JsonRowsScanner \<Rightarrow> QueryResult \<Rightarrow> QueryResult" where
  "Complete std now j result =
     result\<lparr>Cost := Duration_String std (time_Since now (start j)), Rows := jRows j\<rparr>"

definition emptyResult :: QueryResult where
  \<comment> \<open>\<^verbatim>\<open>&QueryResult{}\<close>\<close>
  "emptyResult = \<lparr>Error = [], Cost = [], Rows = []\<rparr>"

definition errorResult :: "error \<Rightarrow> QueryResult" where
  \<comment> \<open>\<^verbatim>\<open>&QueryResult{Error: err.Error()}\<close>\<close>
  "errorResult err = \<lparr>Error = err_Error err, Cost = [], Rows = []\<rparr>"

definition Query :: "'s Env \<Rightarrow> Std \<Rightarrow> 's World \<Rightarrow> string \<Rightarrow> JsonRowsScanner
    \<Rightarrow> (panic + QueryResult) \<times> 's World" where
  "Query E std w q scanner =
     (let (_, w1) = PingDB E w (3 * Second');
          scanner1 = StartExecute (Now E (outside w1)) scanner
      in case doQuery E w1 q of
           (Inl err, w2) \<Rightarrow> (Inr (errorResult err), w2)
         | (Inr rows, w2) \<Rightarrow>
             (case JsonRowsScanner_Scan std scanner1 rows of
                Inl p \<Rightarrow> (Inl p, doClose E w2)
              | Inr (Some err, scanner2) \<Rightarrow> (Inr (errorResult err), doClose E w2)
              | Inr (None, scanner2) \<Rightarrow>
                  (Inr (Complete std (Now E (outside w2)) scanner2 emptyResult), doClose E w2)))"

text \<open>
  \<^verbatim>\<open>multierr.Append\<close>: nil when both are nil, the other one when one is nil, and otherwise
  one error whose message joins the two with \<^verbatim>\<open>"; "\<close>.
\<close>

fun multierr_Append :: "error option \<Rightarrow> error option \<Rightarrow> error option" where
  "multierr_Append None right = right"
| "multierr_Append (Some l) None = Some l"
| "multierr_Append (Some l) (Some r) = Some (GoError (err_Error l @ ''; '' @ err_Error r))"

definition Exec :: "'s Env \<Rightarrow> Std \<Rightarrow> 's World \<Rightarrow> string \<Rightarrow> JsonRowsScanner
    \<Rightarrow> (panic + QueryResult) \<times> 's World" where
  "Exec E std w q rowsScanner =
     (let (_, w1) = PingDB E w (3 * Second');
          scanner1 = StartExecute (Now E (outside w1)) rowsScanner
      in case doExec E w1 q of
           (Inl err, w2) \<Rightarrow> (Inr (errorResult err), w2)
         | (Inr result, w2) \<Rightarrow>
             (let (id, err1) = LastInsertId result;
                  (affected, err2) = RowsAffected result;
                  added =
                    (case multierr_Append err1 err2 of
                       Some err \<Rightarrow>
                         AddRow (StartRows scanner1 [''lastInsertId'', ''rowsAffected'', ''error''])
                           0 [VInt id, VInt affected, VError err]
                     | None \<Rightarrow>
                         AddRow (StartRows scanner1 [''lastInsertId'', ''rowsAffected''])
                           0 [VInt id, VInt affected])
              in case added of
                   Inl p \<Rightarrow> (Inl p, w2)
                 | Inr (_, scanner2) \<Rightarrow>
                     (Inr (Complete std (Now E (outside w2)) scanner2 emptyResult), w2)))"

subsection \<open>\<^verbatim>\<open>strings.Fields\<close>\<close>

text \<open>
  \<^verbatim>\<open>strings.Fields\<close> splits around runs of white space as \<^verbatim>\<open>unicode.IsSpace\<close> defines
  it. These are the UTF-8 encodings of the white-space runes: the six of ASCII, U+0085,
  U+00A0, U+1680, U+2000 to U+200A, U+2028, U+2029, U+202F, U+205F and U+3000. Their
  first bytes are never continuation bytes, so wherever one of these byte sequences
  occurs in a string it is a rune of that string.
\<close>

definition spaceRunes :: "nat list list" where
  "spaceRunes =
     [[0x09], [0x0A], [0x0B], [0x0C], [0x0D], [0x20], [0xC2, 0x85], [0xC2, 0xA0],
      [0xE1, 0x9A, 0x80]]
     @ map (\<lambda>d. [0xE2, 0x80, d]) [0x80 ..< 0x8B]
     @ [[0xE2, 0x80, 0xA8], [0xE2, 0x80, 0xA9], [0xE2, 0x80, 0xAF], [0xE2, 0x81, 0x9F],
        [0xE3, 0x80, 0x80]]"

definition spaceWidth :: "string \<Rightarrow> nat" where
  \<comment> \<open>the width in bytes of the white-space rune the string starts with, 0 if there is none\<close>
  "spaceWidth s =
     (case find (\<lambda>r. prefix r (map of_char s)) spaceRunes of
        None \<Rightarrow> 0
      | Some r \<Rightarrow> length r)"

function fieldsFrom :: "string \<Rightarrow> string \<Rightarrow> string list" where
  "fieldsFrom cur [] = (if cur = [] then [] else [cur])"
| "fieldsFrom cur (c # cs) =
     (if spaceWidth (c # cs) = 0 then fieldsFrom (cur @ [c]) cs
      else (if cur = [] then [] else [cur])
           @ fieldsFrom [] (drop (spaceWidth (c # cs)) (c # cs)))"
  by pat_completeness auto
termination
  by (relation "measure (\<lambda>(cur, s). length s)") auto

definition Fields :: "string \<Rightarrow> string list" where
  "Fields s = fieldsFrom [] s"

definition RunSQL :: "'s Env \<Rightarrow> Std \<Rightarrow> 's World \<Rightarrow> string \<Rightarrow> (panic + QueryResult) \<times> 's World" where
  "RunSQL E std w query =
     (let scanner = NewJsonRowsScanner 0 30 in
      case Fields query of
        [] \<Rightarrow> (Inl IndexOutOfRange, w)
      | f # _ \<Rightarrow>
          (let firstWord = ToLower f in
           if firstWord \<in> {''select'', ''show'', ''desc'', ''describe''} then
             Query E std w query scanner
           else if firstWord = ''insert'' then
             (if strings_Contains (ToLower query) ''returning''
              then Query E std w query scanner
              else Exec E std w query scanner)
           else Exec E std w query scanner))"

section \<open>The HTTP handlers of cmd/dualconn\<close>

text \<open>\<^verbatim>\<open>url.Values\<close> and its \<^verbatim>\<open>Get\<close>: the first value of the key, or the empty string.\<close>

type_synonym Values = "string \<rightharpoonup> string list"

definition Values_Get :: "Values \<Rightarrow> string \<Rightarrow> string" where
  "Values_Get v key = (case v key of None \<Rightarrow> [] | Some [] \<Rightarrow> [] | Some (x # _) \<Rightarrow> x)"

text \<open>
  The JSON object \<^verbatim>\<open>encoding/json\<close> writes for a non-nil \<^verbatim>\<open>*QueryResult\<close>: the struct
  fields in declaration order under their tags, each left out when empty
  (\<^verbatim>\<open>omitempty\<close>: the empty string, a slice of length 0). The encoding of the cells
  inside the rows is not represented.
\<close>

datatype Json = JString string | JRows "row list" | JObject "(string \<times> Json) list"

definition json_QueryResult :: "QueryResult \<Rightarrow> Json" where
  "json_QueryResult qr =
     JObject ((if Error qr = [] then [] else [(''error'', JString (Error qr))])
            @ (if Cost qr = [] then [] else [(''cost'', JString (Cost qr))])
            @ (if Rows qr = [] then [] else [(''rows'', JRows (Rows qr))]))"

definition queryHandler :: "'s Env \<Rightarrow> Std \<Rightarrow> 's World \<Rightarrow> Values \<Rightarrow> (panic + Json) \<times> 's World" where
  "queryHandler E std w urlQuery =
     (case RunSQL E std w (Values_Get urlQuery ''q'') of
        (Inl p, w') \<Rightarrow> (Inl p, w')
      | (Inr queryResult, w') \<Rightarrow> (Inr (json_QueryResult queryResult), w'))"



section \<open>The connection manager (the core)\<close>

text \<open>
  The manager itself (package \<^verbatim>\<open>dualconn\<close>: \<^verbatim>\<open>NewManager\<close>, \<^verbatim>\<open>Enable\<close>,
  \<^verbatim>\<open>DialContext\<close>, the connection type) is not among the sources; only its caller
  \<^verbatim>\<open>cmd/dualconn/main.go\<close> is. Every definition of this section is modelled from the
  specification, under the names the specification uses. Timestamps and durations are
  natural numbers.
\<close>

text \<open>
  Modelled from the spec: ConnectionStats (absent from the sources), the counters, the
  timestamps of the last successful read and write, and the closed flag of one
  connection. Its identifier is the key under which the target holds it.
\<close>

record ConnectionStats =
  bytesRead :: nat
  bytesWritten :: nat
  lastReadAt :: "nat option"
  lastWriteAt :: "nat option"
  closed :: bool

text \<open>
  Modelled from the spec: Target (absent from the sources), a configured address with
  its enabled flag, the timestamp of the last dial attempt and its connection records.
\<close>

record Target =
  address :: string
  enabled :: bool
  lastDialAttempt :: "nat option"
  connections :: "nat \<rightharpoonup> ConnectionStats"

text \<open>
  Modelled from the spec: Manager (absent from the sources), the dial timeout, the
  targets in configured order and the mirroring flag.
\<close>

record Manager =
  dialTimeout :: nat
  targets :: "Target list"
  mirroringEnabled :: bool

text \<open>
  Modelled from the spec: the Stream Connection Wrapper (absent from the sources), as a
  reference to its statistics record in the registry: the target's address and the
  connection identifier.
\<close>

record Wrapper =
  waddr :: string
  wid :: nat

text \<open>
  Modelled from the spec: the Composite Connection (absent from the sources): exactly
  one protagonist and an ordered halo set.
\<close>

record CompositeConnection =
  protagonist :: Wrapper
  haloSet :: "Wrapper list"

text \<open>
  Modelled from the spec: DialFailure (absent from the sources), one summary fault that
  aggregates the errors of the attempts.
\<close>

datatype DialError = DialFailure string "error list"

text \<open>
  Modelled from the spec: duplicate addresses collapse to one Target (part of
  \<open>construct\<close>, absent from the sources); the first occurrence of an address stays, a
  later duplicate is ignored.
\<close>

definition collapse :: "string list \<Rightarrow> string list" where
  "collapse addresses = foldl (\<lambda>acc a. if a \<in> set acc then acc else acc @ [a]) [] addresses"

text \<open>
  Modelled from the spec: a Target as \<open>construct\<close> builds it (absent from the sources),
  enabled and with an empty connection map.
\<close>

definition newTarget :: "string \<Rightarrow> Target" where
  "newTarget a = \<lparr>address = a, enabled = True, lastDialAttempt = None, connections = Map.empty\<rparr>"

text \<open>
  Modelled from the spec: \<open>construct(addresses, timeout)\<close> (absent from the sources)
  builds one Target per address, all enabled, with empty connection maps. Mirroring is
  switched on afterwards (\<^verbatim>\<open>WithProtagonistHalo\<close>).
\<close>

definition construct :: "string list \<Rightarrow> nat \<Rightarrow> Manager" where
  "construct addresses timeout =
     \<lparr>dialTimeout = timeout, targets = map newTarget (collapse addresses),
      mirroringEnabled = False\<rparr>"

text \<open>
  Modelled from the spec: \<open>setEnabled(address, enabled) -> bool\<close> (absent from the
  sources) finds the Target by exact address match, sets \<open>enabled\<close>, and returns whether
  the address was found. Nothing else of the registry changes.
\<close>

definition setEnabled :: "Manager \<Rightarrow> string \<Rightarrow> bool \<Rightarrow> bool \<times> Manager" where
  "setEnabled m a e =
     (if a \<in> set (map address (targets m))
      then (True, m\<lparr>targets := map (\<lambda>t. if address t = a then t\<lparr>enabled := e\<rparr> else t) (targets m)\<rparr>)
      else (False, m))"

text \<open>
  Modelled from the spec: \<open>snapshotEnabledOrder()\<close> (absent from the sources) returns
  the configured targets in original order, filtered to the enabled ones.
\<close>

definition snapshotEnabledOrder :: "Manager \<Rightarrow> Target list" where
  "snapshotEnabledOrder m = filter enabled (targets m)"

text \<open>
  Modelled from the spec: \<open>register(address, stats)\<close> (absent from the sources) inserts
  a new ConnectionStats under the Target matching the address, and does nothing when
  there is no such Target.
\<close>

definition register :: "Manager \<Rightarrow> string \<Rightarrow> nat \<Rightarrow> ConnectionStats \<Rightarrow> Manager" where
  "register m a cid stats =
     m\<lparr>targets := map (\<lambda>t. if address t = a then t\<lparr>connections := (connections t)(cid \<mapsto> stats)\<rparr> else t)
                     (targets m)\<rparr>"

text \<open>
  Modelled from the spec: the ConnectionStats of a connection that was just dialled
  (absent from the sources): no byte counted, no I/O yet, not closed.
\<close>

definition newStats :: ConnectionStats where
  "newStats = \<lparr>bytesRead = 0, bytesWritten = 0, lastReadAt = None, lastWriteAt = None, closed = False\<rparr>"

text \<open>
  Modelled from the spec: the network as a dial sees it (the transport is not part of
  the sources): for an address, either the error of the attempt or the time the
  connection takes to be established; the identifier given to a new connection to that
  address; the clock.
\<close>

record Net =
  connect :: "string \<Rightarrow> error + nat"
  newId :: "string \<Rightarrow> nat"
  clock :: nat

text \<open>
  Modelled from the spec: one dial attempt (absent from the sources), bounded by
  \<open>dialTimeout\<close>: it succeeds when the connection is established within the timeout.
\<close>

definition attempt :: "Manager \<Rightarrow> Net \<Rightarrow> Target \<Rightarrow> error + Wrapper" where
  "attempt m net t =
     (case connect net (address t) of
        Inl err \<Rightarrow> Inl err
      | Inr d \<Rightarrow>
          if d \<le> dialTimeout m then Inr \<lparr>waddr = address t, wid = newId net (address t)\<rparr>
          else Inl (GoError ''dial timeout''))"

text \<open>
  Modelled from the spec: a target is reachable within the timeout (absent from the
  sources) when the dial attempt to it succeeds.
\<close>

definition reachable :: "Manager \<Rightarrow> Net \<Rightarrow> Target \<Rightarrow> bool" where
  "reachable m net t = (case attempt m net t of Inl err \<Rightarrow> False | Inr w \<Rightarrow> True)"

text \<open>
  Modelled from the spec: \<open>lastDialAttempt\<close> (absent from the sources) is set on every
  target that is attempted, also when the attempt fails.
\<close>

definition markAttempts :: "Manager \<Rightarrow> Net \<Rightarrow> string list \<Rightarrow> Manager" where
  "markAttempts m net as =
     m\<lparr>targets := map (\<lambda>t. if address t \<in> set as then t\<lparr>lastDialAttempt := Some (clock net)\<rparr> else t)
                     (targets m)\<rparr>"

text \<open>
  Modelled from the spec: step 3e of the dial (absent from the sources) registers the
  statistics of each successful connection under its Target.
\<close>

fun registerAll :: "Manager \<Rightarrow> Wrapper list \<Rightarrow> Manager" where
  "registerAll m [] = m"
| "registerAll m (w # ws) = registerAll (register m (waddr w) (wid w) newStats) ws"

text \<open>
  Modelled from the spec: the attempts that succeeded, in the order of the attempts
  (part of the dial, absent from the sources).
\<close>

fun successes :: "(error + Wrapper) list \<Rightarrow> Wrapper list" where
  "successes [] = []"
| "successes (Inl err # rs) = successes rs"
| "successes (Inr w # rs) = w # successes rs"

text \<open>
  Modelled from the spec: the per-target errors that a DialFailure aggregates (part of
  the dial, absent from the sources).
\<close>

fun failures :: "(error + Wrapper) list \<Rightarrow> error list" where
  "failures [] = []"
| "failures (Inl err # rs) = err # failures rs"
| "failures (Inr w # rs) = failures rs"

text \<open>
  Modelled from the spec: \<open>dial(context, mirroringEnabled)\<close> (absent from the sources),
  steps 1 to 3 of the Dial Coordinator. The context is taken as not cancelled. The
  results of the attempts are collected in the configured order of the targets, whatever
  the order in which the attempts finish; the first success of that list is the
  protagonist, every other success a halo connection.
\<close>

definition dial :: "Manager \<Rightarrow> Net \<Rightarrow> bool \<Rightarrow> (DialError + CompositeConnection) \<times> Manager" where
  "dial m net mirroring =
     (case snapshotEnabledOrder m of
        [] \<Rightarrow> (Inl (DialFailure ''no enabled targets'' []), m)
      | first # rest \<Rightarrow>
          if \<not> mirroring then
            (let m1 = markAttempts m net [address first] in
             case attempt m net first of
               Inl err \<Rightarrow> (Inl (DialFailure ''dial failed'' [err]), m1)
             | Inr w \<Rightarrow> (Inr \<lparr>protagonist = w, haloSet = []\<rparr>, registerAll m1 [w]))
          else
            (let results = map (attempt m net) (first # rest);
                 m1 = markAttempts m net (map address (first # rest))
             in case successes results of
                  [] \<Rightarrow> (Inl (DialFailure ''dial failed'' (failures results)), m1)
                | p # halos \<Rightarrow>
                    (Inr \<lparr>protagonist = p, haloSet = halos\<rparr>, registerAll m1 (p # halos))))"

text \<open>
  Modelled from the spec: the statistics record a wrapper refers to (the registry is
  absent from the sources), looked up under the Target of its address.
\<close>

definition statsOf :: "Manager \<Rightarrow> Wrapper \<Rightarrow> ConnectionStats option" where
  "statsOf m w =
     (case find (\<lambda>t. address t = waddr w) (targets m) of
        None \<Rightarrow> None
      | Some t \<Rightarrow> connections t (wid w))"

text \<open>
  Modelled from the spec: the update in place of the statistics record a wrapper refers
  to (absent from the sources); nothing happens when there is no such record.
\<close>

definition updStats :: "Manager \<Rightarrow> Wrapper \<Rightarrow> (ConnectionStats \<Rightarrow> ConnectionStats) \<Rightarrow> Manager" where
  "updStats m w f =
     m\<lparr>targets := map (\<lambda>t. if address t = waddr w
                           then (case connections t (wid w) of
                                   None \<Rightarrow> t
                                 | Some s \<Rightarrow> t\<lparr>connections := (connections t)(wid w \<mapsto> f s)\<rparr>)
                           else t)
                     (targets m)\<rparr>"

text \<open>
  Modelled from the spec: a successful write of \<open>n\<close> bytes (absent from the sources)
  advances \<open>bytesWritten\<close> by \<open>n\<close> and sets \<open>lastWriteAt\<close>.
\<close>

definition wrote :: "nat \<Rightarrow> nat \<Rightarrow> ConnectionStats \<Rightarrow> ConnectionStats" where
  "wrote n now s = s\<lparr>bytesWritten := bytesWritten s + n, lastWriteAt := Some now\<rparr>"

text \<open>
  Modelled from the spec: marking a connection record closed (absent from the sources).
\<close>

definition markClosed :: "ConnectionStats \<Rightarrow> ConnectionStats" where
  "markClosed s = s\<lparr>closed := True\<rparr>"

text \<open>
  Modelled from the spec: the transport under the wrappers (not part of the sources):
  what the underlying write of a buffer on a connection returns, the count of bytes
  written and the error.
\<close>

type_synonym Wire = "Wrapper \<Rightarrow> string \<Rightarrow> nat \<times> error option"

text \<open>
  Modelled from the spec: a halo write that is neither a failure nor a short write
  (absent from the sources).
\<close>

definition haloWriteOk :: "Wire \<Rightarrow> string \<Rightarrow> Wrapper \<Rightarrow> bool" where
  "haloWriteOk wire buffer h = (snd (wire h buffer) = None \<and> \<not> fst (wire h buffer) < length buffer)"

text \<open>
  Modelled from the spec: the mirroring of a write to the live halo members, in order
  (absent from the sources). A failure or a short write marks the member closed and
  removes it from the active set; a successful write updates the member's statistics.
\<close>

fun mirror :: "Wire \<Rightarrow> nat \<Rightarrow> string \<Rightarrow> Wrapper list \<Rightarrow> Manager \<Rightarrow> Wrapper list \<times> Manager" where
  "mirror wire now buffer [] m = ([], m)"
| "mirror wire now buffer (h # hs) m =
     (if haloWriteOk wire buffer h then
        (let (hs', m') = mirror wire now buffer hs (updStats m h (wrote (fst (wire h buffer)) now))
         in (h # hs', m'))
      else mirror wire now buffer hs (updStats m h markClosed))"

text \<open>
  Modelled from the spec: \<open>write(buffer) -> (n, error)\<close> of the Composite Connection
  (absent from the sources). The protagonist is written first; its failure is returned
  at once, without halo writes; on its success the buffer is mirrored, and the value
  returned is the protagonist's.
\<close>

definition conn_write :: "Manager \<Rightarrow> CompositeConnection \<Rightarrow> Wire \<Rightarrow> nat \<Rightarrow> string
    \<Rightarrow> (nat \<times> error option) \<times> CompositeConnection \<times> Manager" where
  "conn_write m c wire now buffer =
     (case wire (protagonist c) buffer of
        (n, Some err) \<Rightarrow> ((n, Some err), c, m)
      | (n, None) \<Rightarrow>
          (let m1 = updStats m (protagonist c) (wrote n now);
               (hs', m2) = mirror wire now buffer (haloSet c) m1
           in ((n, None), c\<lparr>haloSet := hs'\<rparr>, m2)))"

text \<open>
  Modelled from the spec: disabling every configured target (absent from the sources),
  one \<open>setEnabled\<close> call per address.
\<close>

definition disableAll :: "Manager \<Rightarrow> Manager" where
  "disableAll m = foldl (\<lambda>m' a. snd (setEnabled m' a False)) m (map address (targets m))"

text \<open>
  Modelled from the spec: the wrapper that a successful dial to a target yields (absent
  from the sources).
\<close>

definition wrapperFor :: "Net \<Rightarrow> Target \<Rightarrow> Wrapper" where
  "wrapperFor net t = \<lparr>waddr = address t, wid = newId net (address t)\<rparr>"

text \<open>
  Modelled from the spec: a wrapper is closed (absent from the sources) when its
  statistics record in the registry is marked closed.
\<close>

definition isClosed :: "Manager \<Rightarrow> Wrapper \<Rightarrow> bool" where
  "isClosed m h = (case statsOf m h of None \<Rightarrow> False | Some s \<Rightarrow> closed s)"

text \<open>
  Modelled from the spec: a wrapper is registered (absent from the sources) when the
  registry holds its statistics record.
\<close>

definition registered :: "Manager \<Rightarrow> Wrapper \<Rightarrow> bool" where
  "registered m h = (statsOf m h \<noteq> None)"

section \<open>Predicates and sample inputs used in the statements\<close>

text \<open>
  A string without any non-white-space character: its bytes are a concatenation of
  encodings of white-space runes.
\<close>

definition whiteSpaceOnly :: "string \<Rightarrow> bool" where
  "whiteSpaceOnly s = (\<exists>rs. set rs \<subseteq> set spaceRunes \<and> map of_char s = concat rs)"

text \<open>The two events of a failed probe of \<^verbatim>\<open>PingDB\<close>: the query and the sleep.\<close>

definition probeQ :: Event where "probeQ = EvQuery ''select 1''"
definition probeS :: Event where "probeS = EvSleep (100 * Millisecond)"

text \<open>
  A small standard library and a small database, to run the model on: the state of the
  outside world is the number of calls the database has seen, the first query fails,
  every later one returns a cursor with two columns and two rows.
\<close>

definition std0 :: Std where
  "std0 = \<lparr>
     NullBool_Scan = (\<lambda>v. (v = VInt 1, None)),
     NullInt64_Scan = (\<lambda>v. case v of VInt n \<Rightarrow> (n, None)
                                | _ \<Rightarrow> (0, Some (GoError ''converting to int64''))),
     NullFloat64_Scan = (\<lambda>v. case v of VFloat f \<Rightarrow> (f, None)
                                | _ \<Rightarrow> (0, Some (GoError ''converting to float64''))),
     NullString_Scan = (\<lambda>v. case v of VString s \<Rightarrow> (s, None) | VBytes s \<Rightarrow> (s, None)
                                | _ \<Rightarrow> (''?'', None)),
     Sprintf_v = (\<lambda>v. case v of VString s \<Rightarrow> s | VBool b \<Rightarrow> (if b then ''true'' else ''false'')
                                | _ \<Rightarrow> ''?''),
     Time_Format = (\<lambda>layout t. layout),
     Duration_String = (\<lambda>d. ''1ms''),
     ArgCount_Errorf = (\<lambda>n m. GoError ''sql: wrong number of destination arguments''),
     Scan_Errorf = (\<lambda>i name e. GoError (''sql: Scan error: '' @ err_Error e)) \<rparr>"

definition rows0 :: SqlRows where
  "rows0 = \<lparr> cols = [(''k'', ''VARCHAR''), (''n'', ''BIGINT'')], colsErr = None,
     colTypesErr = None,
     fetched = [[VBytes ''k1'', VInt 5], [VBytes ''k2'', VNil]], lastErr = None \<rparr>"

definition E0 :: "nat Env" where
  "E0 = \<lparr>
     QueryContext = (\<lambda>s q. (if s < 1 then Inl (GoError ''connection refused'') else Inr rows0, Suc s)),
     ExecContext = (\<lambda>s q. (Inr \<lparr>LastInsertId = (7, None), RowsAffected = (1, None)\<rparr>, Suc s)),
     RowsClose = (\<lambda>s. s),
     Now = (\<lambda>s. 1000 * int s),
     Sleep = (\<lambda>d s. s) \<rparr>"

definition w0 :: "nat World" where
  "w0 = \<lparr>outside = 0, trace = []\<rparr>"




text \<open>A database whose cursor delivers 40 rows.\<close>

definition E3 :: "nat Env" where
  "E3 = E0\<lparr>QueryContext :=
     (\<lambda>s q. (Inr (rows0\<lparr>fetched := replicate 40 [VBytes ''k'', VInt 1]\<rparr>), Suc s))\<rparr>"


text \<open>
  A manager with three targets and a timeout of 3: \<open>A\<close> refuses the connection, \<open>B\<close>
  connects after 3 time units and \<open>C\<close> after 1 (so \<open>C\<close> finishes first); in the second
  network \<open>A\<close> answers after the timeout and \<open>B\<close> connects before \<open>C\<close>. The wires: the
  protagonist's write succeeds, the halo member's write is short, or fails.
\<close>

definition m0 :: Manager where
  "m0 = construct [''A'', ''B'', ''C''] 3"

definition net0 :: Net where
  "net0 = \<lparr>connect = (\<lambda>a. if a = ''A'' then Inl (GoError ''connection refused'')
                          else if a = ''B'' then Inr 3 else Inr 1),
           newId = (\<lambda>a. if a = ''B'' then 11 else 12),
           clock = 100\<rparr>"

definition net1 :: Net where
  "net1 = net0\<lparr>connect := (\<lambda>a. if a = ''A'' then Inr 4 else if a = ''B'' then Inr 0 else Inr 2)\<rparr>"

definition m1 :: Manager where
  "m1 = snd (dial m0 net0 True)"

definition c0 :: CompositeConnection where
  "c0 = \<lparr>protagonist = \<lparr>waddr = ''B'', wid = 11\<rparr>, haloSet = [\<lparr>waddr = ''C'', wid = 12\<rparr>]\<rparr>"

definition wire0 :: Wire where
  "wire0 = (\<lambda>w buffer. if waddr w = ''B'' then (length buffer, None) else (2, None))"

definition wire1 :: Wire where
  "wire1 = (\<lambda>w buffer. if waddr w = ''B'' then (length buffer, None)
                        else (0, Some (GoError ''broken pipe'')))"

section \<open>Properties of the SQL facade\<close>

subsection \<open>Arithmetic and rows\<close>

lemma wrap64_id: "MinInt64 \<le> x \<Longrightarrow> x \<le> MaxInt64 \<Longrightarrow> wrap64 x = x"
  unfolding wrap64_def MinInt64_def MaxInt64_def
  by (simp add: mod_pos_pos_trivial)

lemma fillRow_ok: "length hs \<le> length cs \<Longrightarrow> \<exists>r'. fillRow hs cs r = Inr r'"
  by (induction hs cs r rule: fillRow.induct) auto

lemma scanDests_length:
  "length ds = length vs \<Longrightarrow> scanDests std names i ds vs = Inr ds' \<Longrightarrow> length ds' = length ds"
proof (induction std names i ds vs arbitrary: ds' rule: scanDests.induct)
  case (1 std names i d ds v vs)
  then show ?case by (auto split: prod.splits option.splits sum.splits)
qed auto

lemma RowScanner_Scan_length:
  "RowScanner_Scan std s vals = Inr r \<Longrightarrow> length r = length (Types s)"
  unfolding RowScanner_Scan_def Rows_Scan_def
  by (auto simp: Let_def split: sum.splits if_splits dest!: scanDests_length[rotated])

lemma AddRow_fields:
  "AddRow j i cs = Inr (b, j') \<Longrightarrow>
     Limit j' = Limit j \<and> Offset j' = Offset j \<and> Header j' = Header j \<and> start j' = start j"
  unfolding AddRow_def by (auto split: if_splits sum.splits)

lemma AddRow_30:
  assumes "Offset j = 0" "Limit j = 30" "0 \<le> i" "i \<le> 30" "AddRow j i cs = Inr (b, j')"
  shows "(b \<longrightarrow> i < 30) \<and>
    length (jRows j') \<le> (if i < 30 then Suc (length (jRows j)) else length (jRows j))"
proof -
  have w1: "wrap64 (i + 1) = i + 1"
    using assms by (intro wrap64_id) (auto simp: MinInt64_def MaxInt64_def)
  have w2: "wrap64 30 = 30"
    by (intro wrap64_id) (auto simp: MinInt64_def MaxInt64_def)
  show ?thesis
    using assms unfolding AddRow_def by (auto simp: w1 w2 split: if_splits sum.splits)
qed

lemma AddRow_no_panic:
  "length (Header j) \<le> length cs \<Longrightarrow> AddRow j i cs \<noteq> Inl p"
  unfolding AddRow_def using fillRow_ok[of "Header j" cs Map.empty]
  by (auto split: sum.splits)

subsection \<open>The scan loop under offset 0 and limit 30\<close>

text \<open>
  The invariant of the loop: the row number is between 0 and 30 and at least the number
  of rows collected so far.
\<close>

lemma scanLoop_bound:
  "Offset j = 0 \<Longrightarrow> Limit j = 30 \<Longrightarrow> 0 \<le> rowNum \<Longrightarrow> rowNum \<le> 30
   \<Longrightarrow> length (jRows j) \<le> nat rowNum
   \<Longrightarrow> scanLoop std scan e j rowNum rows = Inr (err, j')
   \<Longrightarrow> length (jRows j') \<le> 30"
proof (induction rows arbitrary: j rowNum)
  case Nil
  then show ?case by auto
next
  case (Cons vals rest)
  show ?case
  proof (cases "RowScanner_Scan std scan vals")
    case (Inl a)
    with Cons.prems show ?thesis by auto
  next
    case (Inr r)
    show ?thesis
    proof (cases "AddRow j rowNum r")
      case (Inl p)
      with Cons.prems Inr show ?thesis by simp
    next
      case (Inr bj)
      obtain b j1 where bj: "bj = (b, j1)" by (cases bj)
      note A = AddRow_30[OF Cons.prems(1-4) Inr[unfolded bj]]
      note F = AddRow_fields[OF Inr[unfolded bj]]
      show ?thesis
      proof (cases b)
        case False
        with Cons.prems \<open>RowScanner_Scan std scan vals = Inr r\<close> Inr bj
        have "j' = j1" by simp
        with A Cons.prems show ?thesis by (auto split: if_splits)
      next
        case True
        with A have lt: "rowNum < 30" by simp
        have w: "wrap64 (rowNum + 1) = rowNum + 1"
          using Cons.prems lt by (intro wrap64_id) (auto simp: MinInt64_def MaxInt64_def)
        have "scanLoop std scan e j1 (rowNum + 1) rest = Inr (err, j')"
          using Cons.prems(6) \<open>RowScanner_Scan std scan vals = Inr r\<close> Inr bj True by (simp add: w)
        moreover have "length (jRows j1) \<le> nat (rowNum + 1)"
          using A lt Cons.prems by (auto split: if_splits)
        ultimately show ?thesis
          using Cons.IH[of j1 "rowNum + 1"] F Cons.prems lt by auto
      qed
    qed
  qed
qed

lemma scanLoop_no_panic:
  "length (Header j) = length (Types scan) \<Longrightarrow> scanLoop std scan e j rowNum rows \<noteq> Inl p"
proof (induction rows arbitrary: j rowNum)
  case Nil
  then show ?case by simp
next
  case (Cons vals rest)
  show ?case
  proof (cases "RowScanner_Scan std scan vals")
    case (Inl a)
    then show ?thesis by simp
  next
    case (Inr r)
    then have len: "length r = length (Types scan)" by (rule RowScanner_Scan_length)
    show ?thesis
    proof (cases "AddRow j rowNum r")
      case (Inl q)
      with AddRow_no_panic[of j r rowNum q] len Cons.prems show ?thesis by simp
    next
      case R: (Inr bj)
      obtain b j1 where bj: "bj = (b, j1)" by (cases bj)
      from AddRow_fields[OF R[unfolded bj]] Cons.prems
      have "length (Header j1) = length (Types scan)" by simp
      from Cons.IH[OF this] show ?thesis using Inr R bj by simp
    qed
  qed
qed

lemma JsonRowsScanner_Scan_no_panic: "JsonRowsScanner_Scan std j rows \<noteq> Inl p"
  unfolding JsonRowsScanner_Scan_def NewRowScanner_def Columns_def ColumnTypes_def
  by (auto simp: StartRows_def split: sum.splits option.splits intro!: scanLoop_no_panic)

lemma JsonRowsScanner_Scan_bound:
  "Offset j = 0 \<Longrightarrow> Limit j = 30 \<Longrightarrow> jRows j = []
   \<Longrightarrow> JsonRowsScanner_Scan std j rows = Inr (err, j') \<Longrightarrow> length (jRows j') \<le> 30"
  unfolding JsonRowsScanner_Scan_def
  by (auto simp: StartRows_def split: sum.splits elim!: scanLoop_bound[rotated -1])

subsection \<open>Query, Exec and RunSQL return a result\<close>

lemma Query_total:
  assumes "Offset sc = 0" "Limit sc = 30" "jRows sc = []"
  shows "\<exists>qr w'. Query E std w q sc = (Inr qr, w') \<and> length (Rows qr) \<le> 30"
proof -
  obtain u w1 where p: "PingDB E w (3 * Second') = (u, w1)" by (cases "PingDB E w (3 * Second')")
  define sc1 where "sc1 = StartExecute (Now E (outside w1)) sc"
  have sc1: "Offset sc1 = 0" "Limit sc1 = 30" "jRows sc1 = []"
    using assms by (simp_all add: sc1_def StartExecute_def)
  obtain r w2 where d: "doQuery E w1 q = (r, w2)" by (cases "doQuery E w1 q")
  show ?thesis
  proof (cases r)
    case (Inl err)
    then show ?thesis
      unfolding Query_def by (simp add: p d errorResult_def)
  next
    case (Inr rows)
    show ?thesis
    proof (cases "JsonRowsScanner_Scan std sc1 rows")
      case (Inl pn)
      with JsonRowsScanner_Scan_no_panic show ?thesis by blast
    next
      case R: (Inr ej)
      obtain e j2 where ej: "ej = (e, j2)" by (cases ej)
      from JsonRowsScanner_Scan_bound[OF sc1 R[unfolded ej]] have "length (jRows j2) \<le> 30" .
      then show ?thesis
        unfolding Query_def using Inr R ej
        by (cases e) (simp_all add: p d sc1_def[symmetric] errorResult_def Complete_def emptyResult_def)
    qed
  qed
qed

lemma Exec_total:
  assumes "Offset sc = 0" "Limit sc = 30" "jRows sc = []"
  shows "\<exists>qr w'. Exec E std w q sc = (Inr qr, w') \<and> length (Rows qr) \<le> 30"
proof -
  obtain u w1 where p: "PingDB E w (3 * Second') = (u, w1)" by (cases "PingDB E w (3 * Second')")
  define sc1 where "sc1 = StartExecute (Now E (outside w1)) sc"
  have sc1: "Offset sc1 = 0" "Limit sc1 = 30" "jRows sc1 = []"
    using assms by (simp_all add: sc1_def StartExecute_def)
  have w1: "wrap64 1 = 1" "wrap64 30 = 30"
    by (rule wrap64_id; simp add: MinInt64_def MaxInt64_def)+
  obtain r w2 where d: "doExec E w1 q = (r, w2)" by (cases "doExec E w1 q")
  show ?thesis
  proof (cases r)
    case (Inl err)
    then show ?thesis
      unfolding Exec_def by (simp add: p d errorResult_def)
  next
    case (Inr result)
    then show ?thesis
      unfolding Exec_def using sc1
      by (auto simp: p d sc1_def[symmetric] Let_def AddRow_def StartRows_def w1
          Complete_def emptyResult_def split: prod.splits option.splits)
  qed
qed

lemma RunSQL_total:
  assumes "Fields query \<noteq> []"
  shows "\<exists>qr w'. RunSQL E std w query = (Inr qr, w') \<and> length (Rows qr) \<le> 30"
proof -
  have sc: "Offset (NewJsonRowsScanner 0 30) = 0" "Limit (NewJsonRowsScanner 0 30) = 30"
    "jRows (NewJsonRowsScanner 0 30) = []"
    by (simp_all add: NewJsonRowsScanner_def)
  obtain f fs where f: "Fields query = f # fs" using assms by (cases "Fields query") auto
  show ?thesis
    unfolding RunSQL_def Let_def f list.case
    using Query_total[OF sc, of E std w query] Exec_total[OF sc, of E std w query]
    by (simp only: split: if_split) blast
qed

lemma RunSQL_panic: "Fields query = [] \<Longrightarrow> RunSQL E std w query = (Inl IndexOutOfRange, w)"
  unfolding RunSQL_def by simp

subsection \<open>\<^verbatim>\<open>strings.Fields\<close> returns no field exactly on white space\<close>

lemma spaceRunes_nonempty: "r \<in> set spaceRunes \<Longrightarrow> r \<noteq> []"
  unfolding spaceRunes_def by auto

lemma spaceRunes_prefix_free:
  "\<forall>r \<in> set spaceRunes. \<forall>r' \<in> set spaceRunes. prefix r r' \<longrightarrow> r = r'"
  unfolding spaceRunes_def by code_simp

lemma spaceRunes_unique:
  assumes "r \<in> set spaceRunes" "r' \<in> set spaceRunes" "prefix r x" "prefix r' x"
  shows "r = r'"
proof -
  from assms(3,4) have "prefix r r' \<or> prefix r' r"
    by (rule prefix_same_cases)
  with spaceRunes_prefix_free assms(1,2) show ?thesis by blast
qed

lemma spaceWidth_0:
  "spaceWidth s = 0 \<longleftrightarrow> (\<forall>r \<in> set spaceRunes. \<not> prefix r (map of_char s))"
proof
  assume z: "spaceWidth s = 0"
  show "\<forall>r \<in> set spaceRunes. \<not> prefix r (map of_char s)"
  proof (cases "find (\<lambda>r. prefix r (map of_char s)) spaceRunes")
    case None
    then show ?thesis by (simp add: find_None_iff)
  next
    case (Some r)
    then have "r \<in> set spaceRunes" by (auto simp: find_Some_iff)
    with z Some spaceRunes_nonempty show ?thesis by (auto simp: spaceWidth_def)
  qed
next
  assume "\<forall>r \<in> set spaceRunes. \<not> prefix r (map of_char s)"
  then have "find (\<lambda>r. prefix r (map of_char s)) spaceRunes = None"
    by (simp add: find_None_iff)
  then show "spaceWidth s = 0" by (simp add: spaceWidth_def)
qed

lemma spaceWidth_pos:
  assumes "spaceWidth s \<noteq> 0"
  shows "\<exists>r \<in> set spaceRunes. prefix r (map of_char s) \<and> spaceWidth s = length r"
proof (cases "find (\<lambda>r. prefix r (map of_char s)) spaceRunes")
  case None
  with assms show ?thesis by (simp add: spaceWidth_def)
next
  case (Some r)
  then have "r \<in> set spaceRunes" "prefix r (map of_char s)" by (auto simp: find_Some_iff)
  with Some show ?thesis by (auto simp: spaceWidth_def)
qed

lemma whiteSpaceOnly_Nil: "whiteSpaceOnly []"
  unfolding whiteSpaceOnly_def by (rule exI[of _ "[]"]) simp

lemma whiteSpaceOnly_nospace:
  assumes "spaceWidth (c # cs) = 0"
  shows "\<not> whiteSpaceOnly (c # cs)"
proof
  assume "whiteSpaceOnly (c # cs)"
  then obtain rs where rs: "set rs \<subseteq> set spaceRunes" "map of_char (c # cs) = concat rs"
    unfolding whiteSpaceOnly_def by blast
  then obtain r rs' where "rs = r # rs'" by (cases rs) auto
  with rs have "r \<in> set spaceRunes" "prefix r (map of_char (c # cs))" by auto
  with assms show False by (simp add: spaceWidth_0)
qed

lemma whiteSpaceOnly_drop:
  assumes "spaceWidth s \<noteq> 0"
  shows "whiteSpaceOnly s \<longleftrightarrow> whiteSpaceOnly (drop (spaceWidth s) s)"
proof -
  from spaceWidth_pos[OF assms] obtain r where r: "r \<in> set spaceRunes"
    "prefix r (map of_char s)" "spaceWidth s = length r" by blast
  then have split: "map of_char s = r @ map of_char (drop (spaceWidth s) s)"
    by (metis append_eq_conv_conj drop_map prefixE)
  show ?thesis
  proof
    assume "whiteSpaceOnly (drop (spaceWidth s) s)"
    then obtain rs where "set rs \<subseteq> set spaceRunes"
      "map of_char (drop (spaceWidth s) s) = concat rs"
      unfolding whiteSpaceOnly_def by blast
    with r split have "set (r # rs) \<subseteq> set spaceRunes \<and> map of_char s = concat (r # rs)"
      by simp
    then show "whiteSpaceOnly s" unfolding whiteSpaceOnly_def by blast
  next
    assume "whiteSpaceOnly s"
    then obtain rs where rs: "set rs \<subseteq> set spaceRunes" "map of_char s = concat rs"
      unfolding whiteSpaceOnly_def by blast
    from assms have "s \<noteq> []" by (auto simp: spaceWidth_def spaceRunes_def)
    with rs obtain r' rs' where c: "rs = r' # rs'" by (cases rs) auto
    with rs have r': "r' \<in> set spaceRunes" "prefix r' (map of_char s)" by auto
    from spaceRunes_unique[OF r(1) r'(1) r(2) r'(2)] have "r = r'" .
    with split rs c have "map of_char (drop (spaceWidth s) s) = concat rs'" by simp
    with rs c show "whiteSpaceOnly (drop (spaceWidth s) s)"
      unfolding whiteSpaceOnly_def by auto
  qed
qed

lemma fieldsFrom_Nil_iff: "fieldsFrom cur s = [] \<longleftrightarrow> cur = [] \<and> whiteSpaceOnly s"
proof (induction cur s rule: fieldsFrom.induct)
  case (1 cur)
  then show ?case by (simp add: whiteSpaceOnly_Nil)
next
  case (2 cur c cs)
  show ?case
  proof (cases "spaceWidth (c # cs) = 0")
    case True
    with 2 whiteSpaceOnly_nospace[OF True] show ?thesis by simp
  next
    case False
    with 2 whiteSpaceOnly_drop[OF False] show ?thesis by simp
  qed
qed

lemma Fields_Nil_iff: "Fields s = [] \<longleftrightarrow> whiteSpaceOnly s"
  by (simp add: Fields_def fieldsFrom_Nil_iff)


subsection \<open>The trace of the probes\<close>

lemma trace_doQuery: "doQuery E w q = (r, w') \<Longrightarrow> trace w' = trace w @ [EvQuery q]"
  unfolding doQuery_def by (auto split: prod.splits)

lemma trace_doSleep: "trace (doSleep E d w) = trace w @ [EvSleep d]"
  unfolding doSleep_def by simp

lemma trace_doClose: "trace (doClose E w) = trace w @ [EvClose]"
  unfolding doClose_def by simp

lemma pingLoop_3: "pingLoop E 3 w = w"
  by simp

lemma pingLoop_step:
  assumes "i < 3"
  shows "(\<exists>w'. trace w' = trace w @ [probeQ, probeS] \<and> pingLoop E i w = pingLoop E (i + 1) w')
       \<or> trace (pingLoop E i w) = trace w @ [probeQ, EvClose]"
proof -
  obtain r w1 where d: "doQuery E w ''select 1'' = (r, w1)" by (cases "doQuery E w ''select 1''")
  note t = trace_doQuery[OF d]
  show ?thesis
  proof (cases r)
    case (Inl err)
    have "trace (doSleep E (100 * Millisecond) w1) = trace w @ [probeQ, probeS]"
      by (simp add: trace_doSleep t probeQ_def probeS_def)
    moreover have "pingLoop E i w = pingLoop E (i + 1) (doSleep E (100 * Millisecond) w1)"
      using assms d Inl by (subst pingLoop.simps) simp
    ultimately show ?thesis by blast
  next
    case (Inr rows)
    have "pingLoop E i w = doClose E w1"
      using assms d Inr by (subst pingLoop.simps) simp
    then show ?thesis by (simp add: trace_doClose t probeQ_def)
  qed
qed

lemma pingLoop_trace:
  "\<exists>evs \<in> {[probeQ, EvClose], [probeQ, probeS, probeQ, EvClose],
      [probeQ, probeS, probeQ, probeS, probeQ, EvClose],
      [probeQ, probeS, probeQ, probeS, probeQ, probeS]}.
     trace (pingLoop E 0 w) = trace w @ evs"
proof -
  from pingLoop_step[of 0 w E] consider
    (a) "trace (pingLoop E 0 w) = trace w @ [probeQ, EvClose]"
    | (b) w1 where "trace w1 = trace w @ [probeQ, probeS]" "pingLoop E 0 w = pingLoop E 1 w1"
    by auto
  then show ?thesis
  proof cases
    case a then show ?thesis by simp
  next
    case b
    from pingLoop_step[of 1 w1 E] consider
      (c) "trace (pingLoop E 1 w1) = trace w1 @ [probeQ, EvClose]"
      | (d) w2 where "trace w2 = trace w1 @ [probeQ, probeS]" "pingLoop E 1 w1 = pingLoop E 2 w2"
      by auto
    then show ?thesis
    proof cases
      case c with b show ?thesis by simp
    next
      case d
      from pingLoop_step[of 2 w2 E] consider
        (e) "trace (pingLoop E 2 w2) = trace w2 @ [probeQ, EvClose]"
        | (f) w3 where "trace w3 = trace w2 @ [probeQ, probeS]" "pingLoop E 2 w2 = pingLoop E 3 w3"
        by auto
      then show ?thesis
      proof cases
        case e with b d show ?thesis by simp
      next
        case f
        with b d show ?thesis by (simp add: pingLoop_3)
      qed
    qed
  qed
qed

subsection \<open>The row limit, the probe and blank queries\<close>

text \<open>
  Claim C9. A call of \<^verbatim>\<open>RunSQL\<close> (one \<^verbatim>\<open>GET /query\<close> request) that returns a result
  returns at most 30 rows, whatever the database does: the scanner is built with offset 0
  and limit 30. For a row index \<open>i\<close> from 0 on, and for any offset and limit whose sum
  does not overflow, \<^verbatim>\<open>AddRow\<close> on enough columns appends exactly one row if
  \<open>Offset \<le> i\<close> and \<open>i + 1 \<le> Limit + Offset\<close> and leaves the rows as they are otherwise;
  and it returns false when \<open>Offset \<le> i\<close> and \<open>i + 1 > Limit + Offset\<close>.
\<close>

theorem query_returns_at_most_30_rows:
  "(\<forall>qr. fst (RunSQL E std w query) = Inr qr \<longrightarrow> length (Rows qr) \<le> 30)
   \<and> (0 \<le> i \<and> i < MaxInt64 \<and> MinInt64 \<le> Limit j + Offset j \<and> Limit j + Offset j \<le> MaxInt64
        \<and> length (Header j) \<le> length columns \<longrightarrow>
      (\<exists>b j'. AddRow j i columns = Inr (b, j')
         \<and> ((\<exists>r. jRows j' = jRows j @ [r]) \<longleftrightarrow> (Offset j \<le> i \<and> i + 1 \<le> Limit j + Offset j))
         \<and> (\<not> (Offset j \<le> i \<and> i + 1 \<le> Limit j + Offset j) \<longrightarrow> jRows j' = jRows j)
         \<and> (Offset j \<le> i \<and> i + 1 > Limit j + Offset j \<longrightarrow> \<not> b)))"
proof (intro conjI allI impI)
  fix qr
  assume a: "fst (RunSQL E std w query) = Inr qr"
  show "length (Rows qr) \<le> 30"
  proof (cases "Fields query = []")
    case True
    with a show ?thesis by (simp add: RunSQL_panic)
  next
    case False
    from RunSQL_total[OF False, of E std w] a show ?thesis by auto
  qed
next
  assume h: "0 \<le> i \<and> i < MaxInt64 \<and> MinInt64 \<le> Limit j + Offset j \<and> Limit j + Offset j \<le> MaxInt64
        \<and> length (Header j) \<le> length columns"
  have w1: "wrap64 (i + 1) = i + 1"
    using h by (intro wrap64_id) (auto simp: MinInt64_def MaxInt64_def)
  have w2: "wrap64 (Limit j + Offset j) = Limit j + Offset j"
    using h by (intro wrap64_id) auto
  obtain r where r: "fillRow (Header j) columns Map.empty = Inr r"
    using fillRow_ok[of "Header j" columns] h by blast
  show "\<exists>b j'. AddRow j i columns = Inr (b, j')
         \<and> ((\<exists>r. jRows j' = jRows j @ [r]) \<longleftrightarrow> (Offset j \<le> i \<and> i + 1 \<le> Limit j + Offset j))
         \<and> (\<not> (Offset j \<le> i \<and> i + 1 \<le> Limit j + Offset j) \<longrightarrow> jRows j' = jRows j)
         \<and> (Offset j \<le> i \<and> i + 1 > Limit j + Offset j \<longrightarrow> \<not> b)"
    using h unfolding AddRow_def w1 w2 r by auto
qed


theorem query_returns_at_most_30_rows_witness:
  "\<not> isl (fst (RunSQL E0 std0 w0 ''select * from kv''))
   \<and> length (Rows (projr (fst (RunSQL E0 std0 w0 ''select * from kv'')))) \<le> 30
   \<and> length (Rows (projr (fst (RunSQL E3 std0 w0 ''select * from kv'')))) = 30
   \<and> (\<exists>b j'. AddRow (NewJsonRowsScanner 0 30) 30 [] = Inr (b, j') \<and> \<not> b \<and> jRows j' = [])
   \<and> (\<exists>b j' r. AddRow (NewJsonRowsScanner 0 30) 29 [] = Inr (b, j') \<and> jRows j' = [r])"
proof -
  let ?q = "''select * from kv''"
  let ?j = "NewJsonRowsScanner 0 30"
  have e: "\<not> isl (fst (RunSQL E0 std0 w0 ?q))" by code_simp
  then have e': "fst (RunSQL E0 std0 w0 ?q) = Inr (projr (fst (RunSQL E0 std0 w0 ?q)))"
    by simp
  have h30: "(0::int) \<le> 30 \<and> 30 < MaxInt64 \<and> MinInt64 \<le> Limit ?j + Offset ?j
      \<and> Limit ?j + Offset ?j \<le> MaxInt64 \<and> length (Header ?j) \<le> length ([]::Value list)"
    by (simp add: NewJsonRowsScanner_def MaxInt64_def MinInt64_def)
  have h29: "(0::int) \<le> 29 \<and> 29 < MaxInt64 \<and> MinInt64 \<le> Limit ?j + Offset ?j
      \<and> Limit ?j + Offset ?j \<le> MaxInt64 \<and> length (Header ?j) \<le> length ([]::Value list)"
    by (simp add: NewJsonRowsScanner_def MaxInt64_def MinInt64_def)
  have v: "Offset ?j = 0" "Limit ?j = 30" "jRows ?j = []"
    by (simp_all add: NewJsonRowsScanner_def)
  from query_returns_at_most_30_rows[of E0 std0 w0 ?q 30 ?j "[]"] e' h30
  have a: "length (Rows (projr (fst (RunSQL E0 std0 w0 ?q)))) \<le> 30"
    and b: "\<exists>b j'. AddRow ?j 30 [] = Inr (b, j') \<and> \<not> b \<and> jRows j' = []"
    by (auto simp: v)
  from query_returns_at_most_30_rows[of E0 std0 w0 ?q 29 ?j "[]"] h29
  have c: "\<exists>b j' r. AddRow ?j 29 [] = Inr (b, j') \<and> jRows j' = [r]"
    by (auto simp: v)
  have d: "length (Rows (projr (fst (RunSQL E3 std0 w0 ?q)))) = 30" by code_simp
  from e a b c d show ?thesis by blast
qed

text \<open>
  Claim C10. \<^verbatim>\<open>PingDB\<close> returns nil for every database and every state of it. What it
  does is one of four runs: the probe \<^verbatim>\<open>select 1\<close> succeeds at the first, the second or
  the third attempt (each failed attempt is followed by a sleep of 100 ms, the success by
  closing the rows), or it fails three times, each time followed by the sleep. So there
  are at most three attempts, and \<^verbatim>\<open>Query\<close> and \<^verbatim>\<open>Exec\<close>, which discard the returned
  value anyway, never see a failed probe.
\<close>

theorem PingDB_returns_nil:
  "fst (PingDB E w timeout) = None
   \<and> (\<exists>evs \<in> {[probeQ, EvClose],
                [probeQ, probeS, probeQ, EvClose],
                [probeQ, probeS, probeQ, probeS, probeQ, EvClose],
                [probeQ, probeS, probeQ, probeS, probeQ, probeS]}.
        trace (snd (PingDB E w timeout)) = trace w @ evs)"
  unfolding PingDB_def using pingLoop_trace[of E w] by simp

theorem PingDB_returns_nil_witness:
  "fst (PingDB E0 w0 (3 * Second')) = None
   \<and> trace (snd (PingDB E0 w0 (3 * Second'))) = trace w0 @ [probeQ, probeS, probeQ, EvClose]"
proof -
  have "trace (snd (PingDB E0 w0 (3 * Second'))) = [probeQ, probeS, probeQ, EvClose]"
    by code_simp
  with PingDB_returns_nil[of E0 w0 "3 * Second'"] show ?thesis by (simp add: w0_def)
qed

text \<open>
  Claim C8. \<^verbatim>\<open>strings.Fields(query)\<close> is empty exactly when the query has no
  non-white-space character; then \<^verbatim>\<open>RunSQL\<close> panics on the index 0, before any call to
  the database. A query with at least one field makes \<^verbatim>\<open>RunSQL\<close> return a (non-nil)
  \<^verbatim>\<open>QueryResult\<close>, for every database. A request to \<^verbatim>\<open>/query\<close> whose parameter \<open>q\<close> is
  missing or empty makes the handler panic instead of answering.
\<close>

theorem RunSQL_panics_on_blank_query:
  "(Fields query = [] \<longleftrightarrow> whiteSpaceOnly query)
   \<and> (whiteSpaceOnly query \<longrightarrow> RunSQL E std w query = (Inl IndexOutOfRange, w))
   \<and> (\<not> whiteSpaceOnly query \<longrightarrow> (\<exists>qr. fst (RunSQL E std w query) = Inr qr))
   \<and> (Values_Get urlQuery ''q'' = [] \<longrightarrow> fst (queryHandler E std w urlQuery) = Inl IndexOutOfRange)
   \<and> (urlQuery ''q'' = None \<longrightarrow> Values_Get urlQuery ''q'' = [])"
proof (intro conjI impI)
  show f: "Fields query = [] \<longleftrightarrow> whiteSpaceOnly query" by (rule Fields_Nil_iff)
  show "RunSQL E std w query = (Inl IndexOutOfRange, w)" if "whiteSpaceOnly query"
    using that f by (simp add: RunSQL_panic)
  show "\<exists>qr. fst (RunSQL E std w query) = Inr qr" if "\<not> whiteSpaceOnly query"
  proof -
    from that f have "Fields query \<noteq> []" by simp
    from RunSQL_total[OF this, of E std w] show ?thesis by auto
  qed
  show "fst (queryHandler E std w urlQuery) = Inl IndexOutOfRange" if "Values_Get urlQuery ''q'' = []"
  proof -
    have "Fields [] = []" by (simp add: Fields_def)
    then show ?thesis unfolding queryHandler_def that by (simp add: RunSQL_panic)
  qed
  show "Values_Get urlQuery ''q'' = []" if "urlQuery ''q'' = None"
    using that by (simp add: Values_Get_def)
qed

theorem RunSQL_panics_on_blank_query_witness:
  "whiteSpaceOnly [CHR '' '', CHR 0x09, CHR 0xC2, CHR 0xA0]
   \<and> RunSQL E0 std0 w0 [CHR '' '', CHR 0x09, CHR 0xC2, CHR 0xA0] = (Inl IndexOutOfRange, w0)
   \<and> \<not> whiteSpaceOnly ''select 1''
   \<and> (\<exists>qr. fst (RunSQL E0 std0 w0 ''select 1'') = Inr qr)
   \<and> fst (queryHandler E0 std0 w0 Map.empty) = Inl IndexOutOfRange"
proof -
  let ?b = "[CHR '' '', CHR 0x09, CHR 0xC2, CHR 0xA0]"
  have "Fields ?b = []" by code_simp
  with RunSQL_panics_on_blank_query[of ?b E0 std0 w0 Map.empty]
  have 1: "whiteSpaceOnly ?b" "RunSQL E0 std0 w0 ?b = (Inl IndexOutOfRange, w0)"
    and 3: "fst (queryHandler E0 std0 w0 Map.empty) = Inl IndexOutOfRange"
    by simp_all
  have "Fields ''select 1'' \<noteq> []" by code_simp
  with RunSQL_panics_on_blank_query[of "''select 1''" E0 std0 w0 Map.empty]
  have 2: "\<not> whiteSpaceOnly ''select 1''" "\<exists>qr. fst (RunSQL E0 std0 w0 ''select 1'') = Inr qr"
    by simp_all
  from 1 2 3 show ?thesis by blast
qed

subsection \<open>The shape of the results\<close>











subsection \<open>Column kinds and the conversion of scanned values\<close>

lemmas ValueType_defs = ValueTypeBool_def ValueTypeInt64_def ValueTypeFloat64_def
  ValueTypeString_def ValueTypeBytes_def ValueTypeOther_def

lemma strings_Contains_iff: "strings_Contains s sub \<longleftrightarrow> (\<exists>pre post. s = pre @ sub @ post)"
proof (induction s)
  case Nil
  then show ?case by auto
next
  case (Cons c cs)
  show ?case
  proof
    assume "strings_Contains (c # cs) sub"
    then consider "prefix sub (c # cs)" | "strings_Contains cs sub" by auto
    then show "\<exists>pre post. c # cs = pre @ sub @ post"
    proof cases
      case 1
      then obtain post where "c # cs = sub @ post" by (auto simp: prefix_def)
      then have "c # cs = [] @ sub @ post" by simp
      then show ?thesis by blast
    next
      case 2
      with Cons obtain pre post where "cs = pre @ sub @ post" by blast
      then have "c # cs = (c # pre) @ sub @ post" by simp
      then show ?thesis by blast
    qed
  next
    assume "\<exists>pre post. c # cs = pre @ sub @ post"
    then obtain pre post where e: "c # cs = pre @ sub @ post" by blast
    show "strings_Contains (c # cs) sub"
    proof (cases pre)
      case Nil
      with e have "prefix sub (c # cs)" by (simp add: prefix_def)
      then show ?thesis by simp
    next
      case (Cons d pre')
      with e have "cs = pre' @ sub @ post" by simp
      with Cons.IH show ?thesis by auto
    qed
  qed
qed

lemma columnValueType_closed:
  "columnValueType name \<in> {ValueTypeBool, ValueTypeInt64, ValueTypeFloat64, ValueTypeString,
      ValueTypeBytes, ValueTypeOther}"
  unfolding columnValueType_def Let_def by simp

lemma six_kinds:
  "distinct [ValueTypeBool, ValueTypeInt64, ValueTypeFloat64, ValueTypeString,
      ValueTypeBytes, ValueTypeOther]"
  by (simp add: ValueType_defs)

lemma Scan_nil: "NullAny_Scan std (newNullAny k) VNil = (newNullAny k, None)"
  by (simp add: NullAny_Scan_def newNullAny_def)

lemma Scan_typed:
  assumes "v \<noteq> VNil"
  shows "NullAny_Scan std (newNullAny ValueTypeBool) v =
           (\<lparr>Value = VBool (fst (NullBool_Scan std v)), ValueType = ValueTypeBool, Valid = True\<rparr>,
            snd (NullBool_Scan std v))"
    and "NullAny_Scan std (newNullAny ValueTypeInt64) v =
           (\<lparr>Value = VInt (fst (NullInt64_Scan std v)), ValueType = ValueTypeInt64, Valid = True\<rparr>,
            snd (NullInt64_Scan std v))"
    and "NullAny_Scan std (newNullAny ValueTypeFloat64) v =
           (\<lparr>Value = VFloat (fst (NullFloat64_Scan std v)), ValueType = ValueTypeFloat64, Valid = True\<rparr>,
            snd (NullFloat64_Scan std v))"
    and "NullAny_Scan std (newNullAny ValueTypeString) v =
           (\<lparr>Value = VString (fst (NullString_Scan std v)), ValueType = ValueTypeString, Valid = True\<rparr>,
            snd (NullString_Scan std v))"
  using assms
  by (simp_all add: NullAny_Scan_def newNullAny_def ValueType_defs split: prod.splits)

lemma Scan_bytes:
  "v \<noteq> VNil \<Longrightarrow>
     NullAny_Scan std (newNullAny ValueTypeBytes) v =
       (if isBytes v then \<lparr>Value = v, ValueType = ValueTypeBytes, Valid = True\<rparr>
        else scanDefault std \<lparr>Value = VNil, ValueType = ValueTypeBytes, Valid = True\<rparr> v, None)"
  by (simp add: NullAny_Scan_def newNullAny_def ValueType_defs)

lemma Scan_other:
  "v \<noteq> VNil \<Longrightarrow>
     NullAny_Scan std (newNullAny ValueTypeOther) v =
       (scanDefault std \<lparr>Value = VNil, ValueType = ValueTypeOther, Valid = True\<rparr> v, None)"
  by (simp add: NullAny_Scan_def newNullAny_def ValueType_defs)

lemma scanDefault_rules:
  "scanDefault std \<lparr>Value = VNil, ValueType = k, Valid = True\<rparr> (VInt n)
     = \<lparr>Value = VInt n, ValueType = ValueTypeInt64, Valid = True\<rparr>"
  "scanDefault std \<lparr>Value = VNil, ValueType = k, Valid = True\<rparr> (VFloat f)
     = \<lparr>Value = VFloat f, ValueType = ValueTypeFloat64, Valid = True\<rparr>"
  "scanDefault std \<lparr>Value = VNil, ValueType = k, Valid = True\<rparr> (VString s)
     = \<lparr>Value = VString s, ValueType = ValueTypeString, Valid = True\<rparr>"
  "scanDefault std \<lparr>Value = VNil, ValueType = ValueTypeOther, Valid = True\<rparr> (VBytes b)
     = (if length b < 1024 then \<lparr>Value = VString b, ValueType = ValueTypeString, Valid = True\<rparr>
        else \<lparr>Value = VBytes b, ValueType = ValueTypeBytes, Valid = True\<rparr>)"
  "scanDefault std \<lparr>Value = VNil, ValueType = k, Valid = True\<rparr> (VConv s)
     = \<lparr>Value = VString s, ValueType = ValueTypeString, Valid = True\<rparr>"
  "\<exists>layout. scanDefault std \<lparr>Value = VNil, ValueType = k, Valid = True\<rparr> (VTime t)
     = \<lparr>Value = VString (Time_Format std layout t), ValueType = ValueTypeString, Valid = True\<rparr>"
  "scanDefault std \<lparr>Value = VNil, ValueType = k, Valid = True\<rparr> (VBool c)
     = \<lparr>Value = VBool c, ValueType = k, Valid = True\<rparr>"
  "scanDefault std \<lparr>Value = VNil, ValueType = k, Valid = True\<rparr> (VOpaque x)
     = \<lparr>Value = VOpaque x, ValueType = k, Valid = True\<rparr>"
  "scanDefault std \<lparr>Value = VNil, ValueType = k, Valid = True\<rparr> (VError e)
     = \<lparr>Value = VError e, ValueType = k, Valid = True\<rparr>"
  by (auto simp: timeConverter_def)

lemma scanDefault_closed:
  "ValueType ns \<in> {ValueTypeBool, ValueTypeInt64, ValueTypeFloat64, ValueTypeString,
      ValueTypeBytes, ValueTypeOther} \<Longrightarrow>
   ValueType (scanDefault std ns v) \<in> {ValueTypeBool, ValueTypeInt64, ValueTypeFloat64,
      ValueTypeString, ValueTypeBytes, ValueTypeOther}"
  by (cases v) (auto simp: timeConverter_def)

lemma Scan_closed:
  assumes "k \<in> {ValueTypeBool, ValueTypeInt64, ValueTypeFloat64, ValueTypeString,
      ValueTypeBytes, ValueTypeOther}"
  shows "ValueType (fst (NullAny_Scan std (newNullAny k) v)) \<in> {ValueTypeBool, ValueTypeInt64,
      ValueTypeFloat64, ValueTypeString, ValueTypeBytes, ValueTypeOther}"
proof -
  have "ValueType (scanDefault std (newNullAny k\<lparr>Valid := v \<noteq> VNil\<rparr>) v) \<in> {ValueTypeBool, ValueTypeInt64,
      ValueTypeFloat64, ValueTypeString, ValueTypeBytes, ValueTypeOther}"
    using assms by (intro scanDefault_closed) (simp add: newNullAny_def)
  then show ?thesis
    using assms unfolding NullAny_Scan_def Let_def
    by (auto simp: newNullAny_def split: prod.splits)
qed

lemma Contains_iff:
  "Contains s ws \<longleftrightarrow> (\<exists>w \<in> set ws. \<exists>pre post. s = pre @ w @ post)"
  by (induction ws) (auto simp: strings_Contains_iff)

lemma columnValueType_order:
  "columnValueType name =
     (let has = (\<lambda>word. \<exists>pre post. ToUpper name = pre @ word @ post) in
      if has ''CHAR'' \<or> has ''TEXT'' \<or> has ''NVARCHAR'' then ValueTypeString
      else if has ''BOOL'' then ValueTypeBool
      else if has ''INT'' \<or> has ''NUMBER'' then ValueTypeInt64
      else if has ''DECIMAL'' then ValueTypeFloat64
      else if has ''LOB'' then ValueTypeBytes
      else ValueTypeOther)"
proof -
  define u where "u = ToUpper name"
  define has where "has = (\<lambda>word. \<exists>pre post. u = pre @ word @ post)"
  have c: "Contains u ws \<longleftrightarrow> (\<exists>w \<in> set ws. has w)" for ws
    unfolding has_def by (rule Contains_iff)
  have 1: "Contains u [''CHAR'', ''TEXT'', ''NVARCHAR''] \<longleftrightarrow> has ''CHAR'' \<or> has ''TEXT'' \<or> has ''NVARCHAR''"
    unfolding c by simp
  have 2: "Contains u [''BOOL''] \<longleftrightarrow> has ''BOOL''"
    unfolding c by simp
  have 3: "Contains u [''BOOL'', ''INT'', ''NUMBER''] \<longleftrightarrow> has ''BOOL'' \<or> has ''INT'' \<or> has ''NUMBER''"
    unfolding c by simp
  have 4: "Contains u [''DECIMAL''] \<longleftrightarrow> has ''DECIMAL''"
    unfolding c by simp
  have 5: "Contains u [''LOB''] \<longleftrightarrow> has ''LOB''"
    unfolding c by simp
  have "columnValueType name =
     (if has ''CHAR'' \<or> has ''TEXT'' \<or> has ''NVARCHAR'' then ValueTypeString
      else if has ''BOOL'' then ValueTypeBool
      else if has ''INT'' \<or> has ''NUMBER'' then ValueTypeInt64
      else if has ''DECIMAL'' then ValueTypeFloat64
      else if has ''LOB'' then ValueTypeBytes
      else ValueTypeOther)"
    unfolding columnValueType_def Let_def u_def[symmetric] 1 2 3 4 5
    by (cases "has ''CHAR'' \<or> has ''TEXT'' \<or> has ''NVARCHAR''"; cases "has ''BOOL''"; simp only: if_True if_False simp_thms)
  then show ?thesis unfolding Let_def has_def u_def .
qed

text \<open>
  Claim C5, as amended. The kind of a column is one of six distinct kinds, chosen from
  the upper-cased database type name by the first test that holds, in this order: the
  name contains CHAR, TEXT or NVARCHAR (string); BOOL (bool); INT or NUMBER (int64);
  DECIMAL (float64); LOB (bytes); none of them (other). A NULL value is not converted.
  The kinds bool, int64, float64 and string each have one conversion rule, the \<^verbatim>\<open>Scan\<close>
  of \<^verbatim>\<open>sql.NullBool\<close>, \<^verbatim>\<open>sql.NullInt64\<close>, \<^verbatim>\<open>sql.NullFloat64\<close>, \<^verbatim>\<open>sql.NullString\<close>,
  and keep the kind. The kinds bytes and other have no single rule: bytes keeps a
  \<^verbatim>\<open>[]byte\<close> and otherwise does what other does, and other looks at the runtime type of
  the scanned value and changes the kind with it: integers to int64 and floats to
  float64 (kept as they are), strings to string, a \<^verbatim>\<open>[]byte\<close> shorter than 1024 bytes to
  a string, a longer one to bytes, a \<^verbatim>\<open>time.Time\<close> and any value convertible to a string
  to string, and any other value is kept under the column's kind. The kind after the scan
  is again one of the six.
\<close>

theorem column_kinds_and_scan_rules:
  "columnValueType name \<in> {ValueTypeBool, ValueTypeInt64, ValueTypeFloat64, ValueTypeString,
       ValueTypeBytes, ValueTypeOther}
   \<and> distinct [ValueTypeBool, ValueTypeInt64, ValueTypeFloat64, ValueTypeString,
       ValueTypeBytes, ValueTypeOther]
   \<and> columnValueType name =
       (let has = (\<lambda>word. \<exists>pre post. ToUpper name = pre @ word @ post) in
        if has ''CHAR'' \<or> has ''TEXT'' \<or> has ''NVARCHAR'' then ValueTypeString
        else if has ''BOOL'' then ValueTypeBool
        else if has ''INT'' \<or> has ''NUMBER'' then ValueTypeInt64
        else if has ''DECIMAL'' then ValueTypeFloat64
        else if has ''LOB'' then ValueTypeBytes
        else ValueTypeOther)
   \<and> NullAny_Scan std (newNullAny k) VNil = (\<lparr>Value = VNil, ValueType = k, Valid = False\<rparr>, None)
   \<and> (v \<noteq> VNil \<longrightarrow>
        NullAny_Scan std (newNullAny ValueTypeBool) v =
          (\<lparr>Value = VBool (fst (NullBool_Scan std v)), ValueType = ValueTypeBool, Valid = True\<rparr>,
           snd (NullBool_Scan std v))
      \<and> NullAny_Scan std (newNullAny ValueTypeInt64) v =
          (\<lparr>Value = VInt (fst (NullInt64_Scan std v)), ValueType = ValueTypeInt64, Valid = True\<rparr>,
           snd (NullInt64_Scan std v))
      \<and> NullAny_Scan std (newNullAny ValueTypeFloat64) v =
          (\<lparr>Value = VFloat (fst (NullFloat64_Scan std v)), ValueType = ValueTypeFloat64, Valid = True\<rparr>,
           snd (NullFloat64_Scan std v))
      \<and> NullAny_Scan std (newNullAny ValueTypeString) v =
          (\<lparr>Value = VString (fst (NullString_Scan std v)), ValueType = ValueTypeString, Valid = True\<rparr>,
           snd (NullString_Scan std v))
      \<and> NullAny_Scan std (newNullAny ValueTypeOther) v =
          (scanDefault std \<lparr>Value = VNil, ValueType = ValueTypeOther, Valid = True\<rparr> v, None)
      \<and> NullAny_Scan std (newNullAny ValueTypeBytes) v =
          (if isBytes v then \<lparr>Value = v, ValueType = ValueTypeBytes, Valid = True\<rparr>
           else scanDefault std \<lparr>Value = VNil, ValueType = ValueTypeBytes, Valid = True\<rparr> v, None))
   \<and> scanDefault std \<lparr>Value = VNil, ValueType = k, Valid = True\<rparr> (VInt n)
       = \<lparr>Value = VInt n, ValueType = ValueTypeInt64, Valid = True\<rparr>
   \<and> scanDefault std \<lparr>Value = VNil, ValueType = k, Valid = True\<rparr> (VFloat f)
       = \<lparr>Value = VFloat f, ValueType = ValueTypeFloat64, Valid = True\<rparr>
   \<and> scanDefault std \<lparr>Value = VNil, ValueType = k, Valid = True\<rparr> (VString s)
       = \<lparr>Value = VString s, ValueType = ValueTypeString, Valid = True\<rparr>
   \<and> scanDefault std \<lparr>Value = VNil, ValueType = ValueTypeOther, Valid = True\<rparr> (VBytes b)
       = (if length b < 1024 then \<lparr>Value = VString b, ValueType = ValueTypeString, Valid = True\<rparr>
          else \<lparr>Value = VBytes b, ValueType = ValueTypeBytes, Valid = True\<rparr>)
   \<and> scanDefault std \<lparr>Value = VNil, ValueType = k, Valid = True\<rparr> (VConv s)
       = \<lparr>Value = VString s, ValueType = ValueTypeString, Valid = True\<rparr>
   \<and> (\<exists>layout. scanDefault std \<lparr>Value = VNil, ValueType = k, Valid = True\<rparr> (VTime t)
       = \<lparr>Value = VString (Time_Format std layout t), ValueType = ValueTypeString, Valid = True\<rparr>)
   \<and> scanDefault std \<lparr>Value = VNil, ValueType = k, Valid = True\<rparr> (VBool c)
       = \<lparr>Value = VBool c, ValueType = k, Valid = True\<rparr>
   \<and> scanDefault std \<lparr>Value = VNil, ValueType = k, Valid = True\<rparr> (VOpaque x)
       = \<lparr>Value = VOpaque x, ValueType = k, Valid = True\<rparr>
   \<and> (k \<in> {ValueTypeBool, ValueTypeInt64, ValueTypeFloat64, ValueTypeString,
          ValueTypeBytes, ValueTypeOther} \<longrightarrow>
        ValueType (fst (NullAny_Scan std (newNullAny k) v)) \<in> {ValueTypeBool, ValueTypeInt64,
          ValueTypeFloat64, ValueTypeString, ValueTypeBytes, ValueTypeOther})"
proof -
  show ?thesis
    using columnValueType_closed[of name] six_kinds columnValueType_order[of name]
      Scan_nil[of std k] Scan_typed[of v std] Scan_other[of v std] Scan_bytes[of v std]
      scanDefault_rules(1)[of std k n] scanDefault_rules(2)[of std k f]
      scanDefault_rules(3)[of std k s] scanDefault_rules(4)[of std b]
      scanDefault_rules(5)[of std k s] scanDefault_rules(6)[of std k t]
      scanDefault_rules(7)[of std k c] scanDefault_rules(8)[of std k x]
      Scan_closed[of k std v]
    unfolding newNullAny_def
    by (intro conjI impI) (assumption | simp only: newNullAny_def)+
qed


theorem column_kinds_and_scan_rules_witness:
  "columnValueType ''varchar(20)'' = ValueTypeString
   \<and> columnValueType ''BIGINT'' = ValueTypeInt64
   \<and> VInt 5 \<noteq> VNil
   \<and> NullAny_Scan std0 (newNullAny ValueTypeInt64) (VInt 5)
       = (\<lparr>Value = VInt 5, ValueType = ValueTypeInt64, Valid = True\<rparr>, None)
   \<and> NullAny_Scan std0 (newNullAny ValueTypeOther) (VInt 5)
       = (\<lparr>Value = VInt 5, ValueType = ValueTypeInt64, Valid = True\<rparr>, None)
   \<and> ValueTypeOther \<in> {ValueTypeBool, ValueTypeInt64, ValueTypeFloat64, ValueTypeString,
          ValueTypeBytes, ValueTypeOther}
   \<and> ValueType (fst (NullAny_Scan std0 (newNullAny ValueTypeOther) (VInt 5))) \<in> {ValueTypeBool,
          ValueTypeInt64, ValueTypeFloat64, ValueTypeString, ValueTypeBytes, ValueTypeOther}"
proof -
  have n: "VInt 5 \<noteq> VNil" by simp
  have k: "ValueTypeOther \<in> {ValueTypeBool, ValueTypeInt64, ValueTypeFloat64, ValueTypeString,
          ValueTypeBytes, ValueTypeOther}" by simp
  have c: "columnValueType ''varchar(20)'' = ValueTypeString" "columnValueType ''BIGINT'' = ValueTypeInt64"
    by code_simp+
  have i: "NullInt64_Scan std0 (VInt 5) = (5, None)" by (simp add: std0_def)
  from column_kinds_and_scan_rules[of "''varchar(20)''" std0 ValueTypeOther "VInt 5" 5] n k i
  have "NullAny_Scan std0 (newNullAny ValueTypeInt64) (VInt 5)
       = (\<lparr>Value = VInt 5, ValueType = ValueTypeInt64, Valid = True\<rparr>, None)"
    and "NullAny_Scan std0 (newNullAny ValueTypeOther) (VInt 5)
       = (\<lparr>Value = VInt 5, ValueType = ValueTypeInt64, Valid = True\<rparr>, None)"
    and "ValueType (fst (NullAny_Scan std0 (newNullAny ValueTypeOther) (VInt 5))) \<in> {ValueTypeBool,
          ValueTypeInt64, ValueTypeFloat64, ValueTypeString, ValueTypeBytes, ValueTypeOther}"
    by simp_all
  with n k c show ?thesis by simp
qed

text \<open>
  Claim C5, as stated, fails: two columns of the same kind, other (a \<^verbatim>\<open>DOUBLE\<close> and a
  \<^verbatim>\<open>DATETIME\<close> column), are converted by two different rules picked by the runtime type
  of the value. The float is kept and the kind becomes float64; the byte slice becomes a
  string of kind string, which \<^verbatim>\<open>getColValue\<close> then quotes.
\<close>

theorem kind_other_converts_by_runtime_type:
  "columnValueType ''DOUBLE'' = ValueTypeOther
   \<and> columnValueType ''DATETIME'' = ValueTypeOther
   \<and> NullAny_Scan std0 (newNullAny ValueTypeOther) (VFloat 7)
       = (\<lparr>Value = VFloat 7, ValueType = ValueTypeFloat64, Valid = True\<rparr>, None)
   \<and> NullAny_Scan std0 (newNullAny ValueTypeOther) (VBytes ''2024-03-28'')
       = (\<lparr>Value = VString ''2024-03-28'', ValueType = ValueTypeString, Valid = True\<rparr>, None)
   \<and> RowScanner_Scan std0 \<lparr>Types = [ValueTypeOther], RColumns = [''c'']\<rparr> [VFloat 7]
       = Inr [VFloat 7]
   \<and> RowScanner_Scan std0 \<lparr>Types = [ValueTypeOther], RColumns = [''c'']\<rparr> [VBytes ''2024-03-28'']
       = Inr [VString (Quote ''2024-03-28'')]"
  by code_simp

subsection \<open>The handler of \<^verbatim>\<open>/enable\<close>\<close>



section \<open>Properties of the connection manager, as specified\<close>

subsection \<open>The registry\<close>










lemma setEnabled_connections:
  "map connections (targets (snd (setEnabled m a e))) = map connections (targets m)"
  unfolding setEnabled_def by (auto simp: comp_def intro!: map_cong)





subsection \<open>Disabling every target\<close>

lemma disable_fold:
  "foldl (\<lambda>m' a. snd (setEnabled m' a False)) m as
     = m\<lparr>targets := map (\<lambda>t. if address t \<in> set as then t\<lparr>enabled := False\<rparr> else t) (targets m)\<rparr>"
proof (induction as arbitrary: m)
  case Nil
  then show ?case by simp
next
  case (Cons a as)
  have "snd (setEnabled m a False)
      = m\<lparr>targets := map (\<lambda>t. if address t = a then t\<lparr>enabled := False\<rparr> else t) (targets m)\<rparr>"
  proof (cases "a \<in> set (map address (targets m))")
    case True
    then show ?thesis by (simp add: setEnabled_def)
  next
    case False
    then have "map (\<lambda>t. if address t = a then t\<lparr>enabled := False\<rparr> else t) (targets m)
        = map (\<lambda>t. t) (targets m)"
      by (intro map_cong) auto
    with False show ?thesis by (simp add: setEnabled_def)
  qed
  then show ?case
    by (simp add: Cons.IH comp_def)
qed

lemma disableAll_targets:
  "targets (disableAll m) = map (\<lambda>t. t\<lparr>enabled := False\<rparr>) (targets m)"
  unfolding disableAll_def disable_fold by (auto intro!: map_cong)

lemma disableAll_eq: "disableAll m = m\<lparr>targets := map (\<lambda>t. t\<lparr>enabled := False\<rparr>) (targets m)\<rparr>"
  unfolding disableAll_def disable_fold by (auto intro!: map_cong)

lemma disableAll_updStats: "disableAll (updStats m w f) = updStats (disableAll m) w f"
  unfolding disableAll_eq updStats_def
  by (auto simp: comp_def split: option.splits intro!: map_cong)

lemma mirror_disableAll:
  "mirror wire now buffer hs (disableAll m)
     = (fst (mirror wire now buffer hs m), disableAll (snd (mirror wire now buffer hs m)))"
proof (induction hs arbitrary: m)
  case Nil
  then show ?case by simp
next
  case (Cons h hs)
  show ?case
    by (simp add: disableAll_updStats[symmetric] Cons.IH split: prod.splits)
qed

lemma conn_write_disableAll:
  "conn_write (disableAll m) c wire now buffer
     = (fst (conn_write m c wire now buffer), fst (snd (conn_write m c wire now buffer)),
        disableAll (snd (snd (conn_write m c wire now buffer))))"
  unfolding conn_write_def
  by (auto simp: Let_def disableAll_updStats[symmetric] mirror_disableAll
      split: prod.splits option.splits)

lemma dial_no_enabled:
  assumes "\<forall>t \<in> set (targets m). \<not> enabled t"
  shows "snapshotEnabledOrder m = []"
    and "dial m net mirroring = (Inl (DialFailure ''no enabled targets'' []), m)"
proof -
  show s: "snapshotEnabledOrder m = []"
    using assms unfolding snapshotEnabledOrder_def by (simp add: filter_empty_conv)
  show "dial m net mirroring = (Inl (DialFailure ''no enabled targets'' []), m)"
    unfolding dial_def s by simp
qed

lemma statsOf_disableAll: "statsOf (disableAll m) w = statsOf m w"
proof -
  have "find (\<lambda>t. address t = a) (map (\<lambda>t. t\<lparr>enabled := False\<rparr>) ts)
      = map_option (\<lambda>t. t\<lparr>enabled := False\<rparr>) (find (\<lambda>t. address t = a) ts)" for a and ts :: "Target list"
    by (induction ts) auto
  then show ?thesis
    unfolding statsOf_def disableAll_targets by (auto split: option.splits)
qed

text \<open>
  Claim C7. When no target is enabled the snapshot of the enabled targets is empty and
  \<open>dial\<close> fails with \<open>DialFailure\<close> (no enabled targets), with or without mirroring and
  whatever the network does; this is the state after disabling every target.
  \<open>setEnabled\<close> leaves the connection records of every target as they are, and a write
  on a Composite Connection returns the same value, leaves the same Composite Connection
  and updates the same statistics whether or not the targets have been disabled in
  between.
\<close>

theorem all_disabled_dial_fails:
  "((\<forall>t \<in> set (targets m). \<not> enabled t) \<longrightarrow>
       snapshotEnabledOrder m = []
       \<and> dial m net mirroring = (Inl (DialFailure ''no enabled targets'' []), m))
   \<and> (\<forall>t \<in> set (targets (disableAll m)). \<not> enabled t)
   \<and> dial (disableAll m) net mirroring = (Inl (DialFailure ''no enabled targets'' []), disableAll m)
   \<and> map connections (targets (snd (setEnabled m a e))) = map connections (targets m)
   \<and> map connections (targets (disableAll m)) = map connections (targets m)
   \<and> statsOf (disableAll m) w = statsOf m w
   \<and> fst (conn_write (disableAll m) c wire now buffer) = fst (conn_write m c wire now buffer)
   \<and> fst (snd (conn_write (disableAll m) c wire now buffer))
        = fst (snd (conn_write m c wire now buffer))
   \<and> snd (snd (conn_write (disableAll m) c wire now buffer))
        = disableAll (snd (snd (conn_write m c wire now buffer)))"
proof -
  have d: "\<forall>t \<in> set (targets (disableAll m)). \<not> enabled t"
    by (simp add: disableAll_targets)
  have c: "map connections (targets (disableAll m)) = map connections (targets m)"
    by (simp add: disableAll_targets comp_def)
  show ?thesis
    using dial_no_enabled[of m] d dial_no_enabled(2)[OF d]
      setEnabled_connections[of m a e] c statsOf_disableAll[of m w]
      conn_write_disableAll[of m c wire now buffer]
    by simp
qed

theorem all_disabled_dial_fails_witness:
  "map enabled (targets (disableAll m1)) = [False, False, False]
   \<and> snapshotEnabledOrder (disableAll m1) = []
   \<and> fst (dial (disableAll m1) net0 True) = Inl (DialFailure ''no enabled targets'' [])
   \<and> fst (conn_write (disableAll m1) c0 wire0 7 ''hello'') = (5, None)
   \<and> statsOf (disableAll m1) (protagonist c0) = statsOf m1 (protagonist c0)"
proof -
  have h: "\<forall>t \<in> set (targets (disableAll m1)). \<not> enabled t" by code_simp
  have w: "fst (conn_write m1 c0 wire0 7 ''hello'') = (5, None)" by code_simp
  note T = all_disabled_dial_fails[of "disableAll m1" net0 True "''A''" False "protagonist c0"
      c0 wire0 7 "''hello''"]
  from T h have 1: "snapshotEnabledOrder (disableAll m1) = []"
    and 2: "dial (disableAll m1) net0 True
        = (Inl (DialFailure ''no enabled targets'' []), disableAll m1)"
    by blast+
  note U = all_disabled_dial_fails[of m1 net0 True "''A''" False "protagonist c0"
      c0 wire0 7 "''hello''"]
  from U w have 3: "fst (conn_write (disableAll m1) c0 wire0 7 ''hello'') = (5, None)"
    and 4: "statsOf (disableAll m1) (protagonist c0) = statsOf m1 (protagonist c0)"
    by simp_all
  have h': "map enabled (targets (disableAll m1)) = [False, False, False]" by code_simp
  from h' 1 2 3 4 show ?thesis by simp
qed

subsection \<open>The dial with mirroring\<close>

lemma attempt_reachable:
  "attempt m net t = (if reachable m net t then Inr (wrapperFor net t) else Inl (projl (attempt m net t)))"
  unfolding reachable_def attempt_def wrapperFor_def
  by (auto split: sum.splits)

lemma reachable_iff:
  "reachable m net t \<longleftrightarrow> (\<exists>d. connect net (address t) = Inr d \<and> d \<le> dialTimeout m)"
  unfolding reachable_def attempt_def by (auto split: sum.splits)

lemma successes_attempts:
  "successes (map (attempt m net) ts) = map (wrapperFor net) (filter (reachable m net) ts)"
proof (induction ts)
  case Nil
  then show ?case by simp
next
  case (Cons t ts)
  then show ?case by (subst list.map, subst attempt_reachable) simp
qed

lemma filter_first_index:
  assumes "filter P xs = y # ys"
  shows "\<exists>i < length xs. xs ! i = y \<and> P y \<and> (\<forall>j < i. \<not> P (xs ! j))"
proof -
  from assms obtain us vs where x: "xs = us @ y # vs" and u: "\<forall>u \<in> set us. \<not> P u" and y: "P y"
    by (auto simp: filter_eq_Cons_iff)
  have "length us < length xs" using x by simp
  moreover have "xs ! length us = y" using x by simp
  moreover have "\<forall>j < length us. \<not> P (xs ! j)"
    using x u by (auto simp: nth_append)
  ultimately show ?thesis using y by blast
qed

lemma dial_mirroring:
  "fst (dial m net True) =
     (case filter (\<lambda>t. enabled t \<and> reachable m net t) (targets m) of
        [] \<Rightarrow> Inl (DialFailure (if snapshotEnabledOrder m = [] then ''no enabled targets'' else ''dial failed'')
                 (failures (map (attempt m net) (snapshotEnabledOrder m))))
      | p # halos \<Rightarrow> Inr \<lparr>protagonist = wrapperFor net p, haloSet = map (wrapperFor net) halos\<rparr>)"
proof -
  have f: "filter (reachable m net) (snapshotEnabledOrder m)
      = filter (\<lambda>t. enabled t \<and> reachable m net t) (targets m)"
    unfolding snapshotEnabledOrder_def by (simp add: conj_commute)
  show ?thesis
  proof (cases "snapshotEnabledOrder m")
    case Nil
    with f have "filter (\<lambda>t. enabled t \<and> reachable m net t) (targets m) = []" by simp
    with Nil show ?thesis unfolding dial_def by simp
  next
    case (Cons first rest)
    have s: "successes (map (attempt m net) (first # rest))
        = map (wrapperFor net) (filter (\<lambda>t. enabled t \<and> reachable m net t) (targets m))"
      using successes_attempts[of m net "first # rest"] f Cons by simp
    show ?thesis
      unfolding dial_def Cons list.case Let_def s
      by (cases "filter (\<lambda>t. enabled t \<and> reachable m net t) (targets m)") (simp_all add: Cons)
  qed
qed

text \<open>
  Claim C1. With mirroring, \<open>dial\<close> succeeds exactly when some enabled target is
  reachable, that is, when its connection is established within the dial timeout. The
  protagonist of the returned Composite Connection is then the reachable enabled target
  with the least index in the configured order, and the protagonist followed by the halo
  set are the reachable enabled targets in that order. The result does not depend on how
  long the successful attempts take: two networks with the same reachable targets (and
  the same identifiers) give the same Composite Connection.
\<close>

theorem dial_protagonist_first_in_order:
  "((\<exists>c. fst (dial m net True) = Inr c)
      \<longleftrightarrow> (\<exists>t \<in> set (targets m). enabled t \<and> reachable m net t))
   \<and> (\<forall>c. fst (dial m net True) = Inr c \<longrightarrow>
        (\<exists>i < length (targets m).
            enabled (targets m ! i) \<and> reachable m net (targets m ! i)
            \<and> waddr (protagonist c) = address (targets m ! i)
            \<and> (\<forall>j < i. \<not> (enabled (targets m ! j) \<and> reachable m net (targets m ! j))))
        \<and> map waddr (protagonist c # haloSet c)
            = map address (filter (\<lambda>t. enabled t \<and> reachable m net t) (targets m)))
   \<and> (reachable m net t \<longleftrightarrow> (\<exists>d. connect net (address t) = Inr d \<and> d \<le> dialTimeout m))
   \<and> ((\<forall>t \<in> set (targets m). reachable m net' t = reachable m net t)
        \<and> newId net' = newId net \<longrightarrow>
        (\<forall>c. fst (dial m net' True) = Inr c \<longleftrightarrow> fst (dial m net True) = Inr c))"
proof (intro conjI allI impI)
  let ?ok = "filter (\<lambda>t. enabled t \<and> reachable m net t) (targets m)"
  show "(\<exists>c. fst (dial m net True) = Inr c)
      \<longleftrightarrow> (\<exists>t \<in> set (targets m). enabled t \<and> reachable m net t)"
  proof (cases ?ok)
    case Nil
    then have "\<not> (\<exists>t \<in> set (targets m). enabled t \<and> reachable m net t)"
      by (simp add: filter_empty_conv)
    with Nil show ?thesis by (simp add: dial_mirroring)
  next
    case (Cons p halos)
    then have "p \<in> set ?ok" by simp
    then have "\<exists>t \<in> set (targets m). enabled t \<and> reachable m net t" by auto
    with Cons show ?thesis by (simp add: dial_mirroring)
  qed
next
  fix c assume c: "fst (dial m net True) = Inr c"
  let ?ok = "filter (\<lambda>t. enabled t \<and> reachable m net t) (targets m)"
  from c obtain p halos where ok: "?ok = p # halos"
    and cc: "c = \<lparr>protagonist = wrapperFor net p, haloSet = map (wrapperFor net) halos\<rparr>"
    by (auto simp: dial_mirroring split: list.splits)
  from filter_first_index[OF ok] cc
  show "\<exists>i < length (targets m).
            enabled (targets m ! i) \<and> reachable m net (targets m ! i)
            \<and> waddr (protagonist c) = address (targets m ! i)
            \<and> (\<forall>j < i. \<not> (enabled (targets m ! j) \<and> reachable m net (targets m ! j)))"
    by (auto simp: wrapperFor_def)
  show "map waddr (protagonist c # haloSet c) = map address ?ok"
    unfolding ok cc by (simp add: wrapperFor_def comp_def)
next
  show "reachable m net t \<longleftrightarrow> (\<exists>d. connect net (address t) = Inr d \<and> d \<le> dialTimeout m)"
    by (rule reachable_iff)
next
  fix c
  assume a: "(\<forall>t \<in> set (targets m). reachable m net' t = reachable m net t) \<and> newId net' = newId net"
  then have f: "filter (\<lambda>t. enabled t \<and> reachable m net' t) (targets m)
      = filter (\<lambda>t. enabled t \<and> reachable m net t) (targets m)"
    by (intro filter_cong) auto
  have w: "wrapperFor net' = wrapperFor net"
    using a by (auto simp: wrapperFor_def fun_eq_iff)
  show "fst (dial m net' True) = Inr c \<longleftrightarrow> fst (dial m net True) = Inr c"
  proof (cases "filter (\<lambda>t. enabled t \<and> reachable m net t) (targets m)")
    case Nil
    then show ?thesis by (simp add: dial_mirroring f)
  next
    case (Cons p halos)
    then show ?thesis by (simp add: dial_mirroring f w)
  qed
qed

theorem dial_protagonist_first_in_order_witness:
  "(\<exists>t \<in> set (targets m0). enabled t \<and> reachable m0 net0 t)
   \<and> fst (dial m0 net0 True) = Inr c0
   \<and> waddr (protagonist c0) = ''B''
   \<and> connect net0 ''B'' = Inr 3 \<and> connect net0 ''C'' = Inr 1
   \<and> map (reachable m0 net1) (targets m0) = map (reachable m0 net0) (targets m0)
   \<and> newId net1 = newId net0
   \<and> fst (dial m0 net1 True) = Inr c0"
proof -
  have d: "fst (dial m0 net0 True) = Inr c0" by code_simp
  have r: "\<forall>t \<in> set (targets m0). reachable m0 net1 t = reachable m0 net0 t" by code_simp
  have n: "newId net1 = newId net0" by (simp add: net1_def)
  have l: "connect net0 ''B'' = Inr 3" "connect net0 ''C'' = Inr 1" "waddr (protagonist c0) = ''B''"
    by (simp_all add: net0_def c0_def)
  note T = dial_protagonist_first_in_order[of m0 net0 "hd (targets m0)" net1]
  from T d have 1: "\<exists>t \<in> set (targets m0). enabled t \<and> reachable m0 net0 t" by blast
  from T r n d have 2: "fst (dial m0 net1 True) = Inr c0" by blast
  from r have r': "map (reachable m0 net1) (targets m0) = map (reachable m0 net0) (targets m0)"
    by simp
  from 1 2 d r' n l show ?thesis by blast
qed

subsection \<open>Writes on a Composite Connection\<close>

lemma find_map_address:
  assumes "\<And>t. address (g t) = address t"
  shows "find (\<lambda>t. address t = a) (map g ts) = map_option g (find (\<lambda>t. address t = a) ts)"
  using assms by (induction ts) auto

lemma find_address: "find (\<lambda>t. address t = a) ts = Some t \<Longrightarrow> address t = a"
  by (induction ts) (auto split: if_splits)

lemma statsOf_updStats:
  "statsOf (updStats m w f) h =
     (if waddr h = waddr w \<and> wid h = wid w then map_option f (statsOf m h) else statsOf m h)"
proof -
  define g :: "Target \<Rightarrow> Target" where "g = (\<lambda>t. if address t = waddr w
                 then (case connections t (wid w) of None \<Rightarrow> t
                       | Some s \<Rightarrow> t\<lparr>connections := (connections t)(wid w \<mapsto> f s)\<rparr>)
                 else t)"
  have ga: "address (g t) = address t" for t
    unfolding g_def by (auto split: option.splits)
  have fm: "find (\<lambda>t. address t = waddr h) (map g (targets m))
      = map_option g (find (\<lambda>t. address t = waddr h) (targets m))"
    using ga by (rule find_map_address)
  have u: "targets (updStats m w f) = map g (targets m)"
    unfolding updStats_def g_def by simp
  show ?thesis
  proof (cases "find (\<lambda>t. address t = waddr h) (targets m)")
    case None
    then show ?thesis unfolding statsOf_def u fm by auto
  next
    case (Some t)
    then have a: "address t = waddr h" by (rule find_address)
    have "connections (g t) (wid h) =
        (if waddr h = waddr w \<and> wid h = wid w then map_option f (connections t (wid h))
         else connections t (wid h))"
      unfolding g_def using a by (auto split: option.splits)
    then show ?thesis unfolding statsOf_def u fm Some by auto
  qed
qed

lemma mirror_Cons_fst:
  "fst (mirror wire now buffer (h # hs) m) =
     (if haloWriteOk wire buffer h
      then h # fst (mirror wire now buffer hs (updStats m h (wrote (fst (wire h buffer)) now)))
      else fst (mirror wire now buffer hs (updStats m h markClosed)))"
  by (simp add: case_prod_unfold Let_def)

lemma mirror_Cons_snd:
  "snd (mirror wire now buffer (h # hs) m) =
     (if haloWriteOk wire buffer h
      then snd (mirror wire now buffer hs (updStats m h (wrote (fst (wire h buffer)) now)))
      else snd (mirror wire now buffer hs (updStats m h markClosed)))"
  by (simp add: case_prod_unfold Let_def)

lemma mirror_halo: "fst (mirror wire now buffer hs m) = filter (haloWriteOk wire buffer) hs"
proof (induction hs arbitrary: m)
  case Nil
  then show ?case by simp
next
  case (Cons h hs)
  then show ?case by (simp only: mirror_Cons_fst filter.simps split: if_split)
qed

lemma registered_updStats: "registered (updStats m w f) h = registered m h"
  unfolding registered_def statsOf_updStats by auto

lemma isClosed_wrote: "isClosed m h \<Longrightarrow> isClosed (updStats m w (wrote n now)) h"
  unfolding isClosed_def statsOf_updStats by (auto simp: wrote_def split: option.splits)

lemma isClosed_markClosed: "isClosed m h \<Longrightarrow> isClosed (updStats m w markClosed) h"
  unfolding isClosed_def statsOf_updStats by (auto simp: markClosed_def split: option.splits)

lemma markClosed_closes: "registered m h \<Longrightarrow> isClosed (updStats m h markClosed) h"
  unfolding isClosed_def registered_def statsOf_updStats
  by (auto simp: markClosed_def split: option.splits)

lemma mirror_keeps_closed:
  "isClosed m h \<Longrightarrow> isClosed (snd (mirror wire now buffer hs m)) h"
proof (induction hs arbitrary: m)
  case Nil
  then show ?case by simp
next
  case (Cons x hs)
  show ?case
    unfolding mirror_Cons_snd
    using Cons.IH[OF isClosed_wrote[OF Cons.prems]] Cons.IH[OF isClosed_markClosed[OF Cons.prems]]
    by simp
qed

lemma mirror_registered:
  "registered (snd (mirror wire now buffer hs m)) h = registered m h"
proof (induction hs arbitrary: m)
  case Nil
  then show ?case by simp
next
  case (Cons x hs)
  show ?case
  proof (cases "haloWriteOk wire buffer x")
    case True
    have "registered (snd (mirror wire now buffer hs (updStats m x (wrote (fst (wire x buffer)) now)))) h
        = registered m h"
      by (simp add: Cons.IH registered_updStats)
    with True show ?thesis by (simp only: mirror_Cons_snd if_True)
  next
    case False
    then show ?thesis by (simp only: mirror_Cons_snd if_False Cons.IH registered_updStats)
  qed
qed

lemma mirror_marks_closed:
  "h \<in> set hs \<Longrightarrow> \<not> haloWriteOk wire buffer h \<Longrightarrow> registered m h
   \<Longrightarrow> isClosed (snd (mirror wire now buffer hs m)) h"
proof (induction hs arbitrary: m)
  case Nil
  then show ?case by simp
next
  case (Cons x hs)
  show ?case
  proof (cases "x = h")
    case True
    with Cons.prems have "isClosed (updStats m x markClosed) h"
      by (simp add: markClosed_closes)
    from mirror_keeps_closed[OF this] True Cons.prems show ?thesis
      by (simp only: mirror_Cons_snd if_False)
  next
    case False
    with Cons.prems have h: "h \<in> set hs" by simp
    show ?thesis
    proof (cases "haloWriteOk wire buffer x")
      case True
      have "isClosed (snd (mirror wire now buffer hs (updStats m x (wrote (fst (wire x buffer)) now)))) h"
        using h Cons.prems by (intro Cons.IH) (simp_all add: registered_updStats)
      with True show ?thesis by (simp only: mirror_Cons_snd if_True)
    next
      case F: False
      have "isClosed (snd (mirror wire now buffer hs (updStats m x markClosed))) h"
        using h Cons.prems by (intro Cons.IH) (simp_all add: registered_updStats)
      with F show ?thesis by (simp only: mirror_Cons_snd if_False)
    qed
  qed
qed

subsection \<open>Registration at dial\<close>

lemma find_address_None: "find (\<lambda>t. address t = a) ts = None \<longleftrightarrow> a \<notin> set (map address ts)"
  by (induction ts) auto

lemma statsOf_register:
  "statsOf (register m a i st) w =
     (if waddr w = a \<and> wid w = i \<and> a \<in> set (map address (targets m)) then Some st
      else statsOf m w)"
proof -
  define g :: "Target \<Rightarrow> Target" where
    "g = (\<lambda>t. if address t = a then t\<lparr>connections := (connections t)(i \<mapsto> st)\<rparr> else t)"
  have ga: "address (g t) = address t" for t unfolding g_def by simp
  have fm: "find (\<lambda>t. address t = waddr w) (map g (targets m))
      = map_option g (find (\<lambda>t. address t = waddr w) (targets m))"
    using ga by (rule find_map_address)
  have u: "targets (register m a i st) = map g (targets m)"
    unfolding register_def g_def by simp
  show ?thesis
  proof (cases "find (\<lambda>t. address t = waddr w) (targets m)")
    case None
    then have "waddr w \<notin> set (map address (targets m))" by (simp add: find_address_None)
    with None show ?thesis unfolding statsOf_def u fm by auto
  next
    case (Some t)
    then have a: "address t = waddr w" by (rule find_address)
    from Some have in_t: "waddr w \<in> set (map address (targets m))"
      using find_address_None[of "waddr w" "targets m"] by auto
    have l: "statsOf (register m a i st) w = connections (g t) (wid w)"
      unfolding statsOf_def u fm Some by simp
    have r: "statsOf m w = connections t (wid w)"
      unfolding statsOf_def Some by simp
    have "connections (g t) (wid w) =
        (if waddr w = a \<and> wid w = i then Some st else connections t (wid w))"
      unfolding g_def using a by auto
    with in_t show ?thesis unfolding l r by auto
  qed
qed

lemma register_addresses: "map address (targets (register m a i st)) = map address (targets m)"
  unfolding register_def by (auto simp: comp_def intro!: map_cong)

lemma registerAll_addresses: "map address (targets (registerAll m ws)) = map address (targets m)"
  by (induction ws arbitrary: m) (simp_all add: register_addresses)

lemma registered_register:
  "registered (register m a i st) w \<longleftrightarrow>
     registered m w \<or> (waddr w = a \<and> wid w = i \<and> a \<in> set (map address (targets m)))"
  unfolding registered_def statsOf_register by auto

lemma registerAll_registers:
  "registered (registerAll m ws) w \<longleftrightarrow>
     registered m w \<or> (w \<in> set ws \<and> waddr w \<in> set (map address (targets m)))"
proof (induction ws arbitrary: m)
  case Nil
  then show ?case by simp
next
  case (Cons x ws)
  have "w = x \<longleftrightarrow> waddr w = waddr x \<and> wid w = wid x" by (cases w; cases x) auto
  then show ?case
    by (simp only: registerAll.simps Cons.IH registered_register register_addresses set_simps)
       (auto)
qed

lemma markAttempts_addresses: "map address (targets (markAttempts m net as)) = map address (targets m)"
  unfolding markAttempts_def by (auto simp: comp_def intro!: map_cong)

lemma dial_registers:
  assumes "fst (dial m net mirroring) = Inr c" and "h \<in> set (protagonist c # haloSet c)"
  shows "registered (snd (dial m net mirroring)) h"
proof (cases "snapshotEnabledOrder m")
  case Nil
  with assms show ?thesis by (simp add: dial_def)
next
  case (Cons first rest)
  have sub: "set (first # rest) \<subseteq> set (targets m)"
    using Cons[symmetric] unfolding snapshotEnabledOrder_def by auto
  show ?thesis
  proof (cases mirroring)
    case False
    with assms Cons obtain w where w: "attempt m net first = Inr w"
      "c = \<lparr>protagonist = w, haloSet = []\<rparr>"
      "snd (dial m net mirroring) = registerAll (markAttempts m net [address first]) [w]"
      by (auto simp: dial_def Let_def split: sum.splits)
    from w(1) have "waddr w = address first"
      by (auto simp: attempt_def split: sum.splits if_splits)
    with sub have "waddr w \<in> set (map address (targets m))" by auto
    moreover from w assms(2) have "h = w" by simp
    ultimately have "registered (registerAll (markAttempts m net [address first]) [w]) h"
      unfolding registerAll_registers markAttempts_addresses by simp
    with w(3) show ?thesis by simp
  next
    case True
    let ?rs = "map (attempt m net) (first # rest)"
    from assms Cons True obtain p halos where p: "successes ?rs = p # halos"
      "c = \<lparr>protagonist = p, haloSet = halos\<rparr>"
      "snd (dial m net mirroring)
         = registerAll (markAttempts m net (map address (first # rest))) (p # halos)"
      by (auto simp: dial_def Let_def split: list.splits)
    from assms(2) p have "h \<in> set (successes ?rs)" by simp
    then have "h \<in> set (map (wrapperFor net) (filter (reachable m net) (first # rest)))"
      by (simp only: successes_attempts)
    then have "h \<in> wrapperFor net ` set (filter (reachable m net) (first # rest))"
      by (simp only: set_map)
    then obtain t where "t \<in> set (filter (reachable m net) (first # rest))" "h = wrapperFor net t"
      by blast
    then have "t \<in> set (first # rest)" "h = wrapperFor net t"
      by (simp_all only: set_filter mem_Collect_eq)
    with sub have "waddr h \<in> set (map address (targets m))"
      by (auto simp: wrapperFor_def)
    moreover from p assms(2) have "h \<in> set (p # halos)" by simp
    ultimately have "registered
        (registerAll (markAttempts m net (map address (first # rest))) (p # halos)) h"
      unfolding registerAll_registers markAttempts_addresses by simp
    with p(3) show ?thesis by simp
  qed
qed

text \<open>
  Claim C2. The pair \<open>(n, error)\<close> that \<open>write\<close> returns is the protagonist's result,
  always; so two transports that agree on the protagonist give the caller the same
  value, whatever the halo members do. A failing protagonist write returns at once and
  changes nothing. After a successful protagonist write, the protagonist stays, the
  halo set is the old one without the members whose write failed or was short, and each
  such member (that is registered) is marked closed in the registry. Every member of a
  Composite Connection that \<open>dial\<close> returns is registered.
\<close>

theorem halo_failures_are_absorbed:
  "fst (conn_write m c wire now buffer) = wire (protagonist c) buffer
   \<and> (wire' (protagonist c) buffer = wire (protagonist c) buffer \<longrightarrow>
        fst (conn_write m c wire' now buffer) = fst (conn_write m c wire now buffer))
   \<and> (snd (wire (protagonist c) buffer) \<noteq> None \<longrightarrow>
        conn_write m c wire now buffer = (wire (protagonist c) buffer, c, m))
   \<and> (snd (wire (protagonist c) buffer) = None \<longrightarrow>
        protagonist (fst (snd (conn_write m c wire now buffer))) = protagonist c
        \<and> haloSet (fst (snd (conn_write m c wire now buffer)))
            = filter (haloWriteOk wire buffer) (haloSet c)
        \<and> (\<forall>h \<in> set (haloSet c).
              snd (wire h buffer) \<noteq> None \<or> fst (wire h buffer) < length buffer \<longrightarrow>
              h \<notin> set (haloSet (fst (snd (conn_write m c wire now buffer))))
              \<and> (registered m h \<longrightarrow> isClosed (snd (snd (conn_write m c wire now buffer))) h)))
   \<and> (fst (dial m' net mirroring) = Inr c' \<longrightarrow>
        (\<forall>h \<in> set (protagonist c' # haloSet c'). registered (snd (dial m' net mirroring)) h))"
proof (intro conjI impI ballI)
  show r: "fst (conn_write m c wire now buffer) = wire (protagonist c) buffer" for wire
    unfolding conn_write_def
    by (cases "wire (protagonist c) buffer") (auto simp: Let_def split: option.splits prod.splits)
  show "fst (conn_write m c wire' now buffer) = fst (conn_write m c wire now buffer)"
    if "wire' (protagonist c) buffer = wire (protagonist c) buffer"
    using that by (simp add: r)
  show "conn_write m c wire now buffer = (wire (protagonist c) buffer, c, m)"
    if "snd (wire (protagonist c) buffer) \<noteq> None"
    using that unfolding conn_write_def
    by (cases "wire (protagonist c) buffer") (auto split: option.splits)
next
  assume ok: "snd (wire (protagonist c) buffer) = None"
  define n where "n = fst (wire (protagonist c) buffer)"
  define m1 where "m1 = updStats m (protagonist c) (wrote n now)"
  have w: "wire (protagonist c) buffer = (n, None)"
    using ok unfolding n_def by (cases "wire (protagonist c) buffer") simp
  have cw: "conn_write m c wire now buffer =
      ((n, None), c\<lparr>haloSet := fst (mirror wire now buffer (haloSet c) m1)\<rparr>,
       snd (mirror wire now buffer (haloSet c) m1))"
    unfolding conn_write_def w m1_def by (simp add: Let_def split: prod.splits)
  show "protagonist (fst (snd (conn_write m c wire now buffer))) = protagonist c"
    by (simp add: cw)
  show hs: "haloSet (fst (snd (conn_write m c wire now buffer)))
            = filter (haloWriteOk wire buffer) (haloSet c)"
    by (simp add: cw mirror_halo)
  fix h assume h: "h \<in> set (haloSet c)"
    and bad: "snd (wire h buffer) \<noteq> None \<or> fst (wire h buffer) < length buffer"
  from bad have nok: "\<not> haloWriteOk wire buffer h" by (auto simp: haloWriteOk_def)
  then show "h \<notin> set (haloSet (fst (snd (conn_write m c wire now buffer))))"
    unfolding hs by simp
  show "isClosed (snd (snd (conn_write m c wire now buffer))) h" if "registered m h"
  proof -
    from that have "registered m1 h" by (simp add: m1_def registered_updStats)
    from mirror_marks_closed[OF h nok this] show ?thesis by (simp add: cw)
  qed
next
  fix h assume "fst (dial m' net mirroring) = Inr c'" "h \<in> set (protagonist c' # haloSet c')"
  then show "registered (snd (dial m' net mirroring)) h" by (rule dial_registers)
qed

theorem halo_failures_are_absorbed_witness:
  "snd (wire0 (protagonist c0) ''hello'') = None
   \<and> wire1 (protagonist c0) ''hello'' = wire0 (protagonist c0) ''hello''
   \<and> fst (conn_write m1 c0 wire0 7 ''hello'') = (5, None)
   \<and> fst (conn_write m1 c0 wire1 7 ''hello'') = (5, None)
   \<and> haloSet (fst (snd (conn_write m1 c0 wire0 7 ''hello''))) = []
   \<and> registered m1 \<lparr>waddr = ''C'', wid = 12\<rparr>
   \<and> fst (wire0 \<lparr>waddr = ''C'', wid = 12\<rparr> ''hello'') < length ''hello''
   \<and> isClosed (snd (snd (conn_write m1 c0 wire0 7 ''hello''))) \<lparr>waddr = ''C'', wid = 12\<rparr>
   \<and> \<not> isClosed m1 \<lparr>waddr = ''C'', wid = 12\<rparr>"
proof -
  let ?h = "\<lparr>waddr = ''C'', wid = 12\<rparr>"
  have p: "snd (wire0 (protagonist c0) ''hello'') = None"
    and e: "wire1 (protagonist c0) ''hello'' = wire0 (protagonist c0) ''hello''"
    and v: "wire0 (protagonist c0) ''hello'' = (5, None)"
    and s: "fst (wire0 ?h ''hello'') < length ''hello''"
    and hin: "?h \<in> set (haloSet c0)"
    by (simp_all add: wire0_def wire1_def c0_def)
  have nc: "\<not> isClosed m1 ?h" by code_simp
  have f: "filter (haloWriteOk wire0 ''hello'') (haloSet c0) = []" by code_simp
  have d: "fst (dial m0 net0 True) = Inr c0" by code_simp
  note T = halo_failures_are_absorbed[of m1 c0 wire0 7 "''hello''" wire1 m0 net0 True c0]
  from T d hin have reg: "registered m1 ?h" unfolding m1_def by simp
  from T v have 1: "fst (conn_write m1 c0 wire0 7 ''hello'') = (5, None)" by simp
  from T e 1 have 2: "fst (conn_write m1 c0 wire1 7 ''hello'') = (5, None)" by simp
  from T p f have 3: "haloSet (fst (snd (conn_write m1 c0 wire0 7 ''hello''))) = []" by simp
  from T p hin s reg have 4: "isClosed (snd (snd (conn_write m1 c0 wire0 7 ''hello''))) ?h"
    by blast
  from p e 1 2 3 reg s 4 nc show ?thesis by blast
qed

end
